theory Spec2Isabelle
  imports Main "HOL-Library.Product_Lexorder" "HOL-Library.Sublist" "HOL-Library.Multiset"
begin

section \<open>Data model (blog/models.py)\<close>

text \<open>
  \<^verbatim>\<open>Post.Status\<close> is a two-valued \<^verbatim>\<open>TextChoices\<close> enumeration.
\<close>

datatype Status = DRAFT | PUBLISHED

text \<open>
  A \<^verbatim>\<open>DateTimeField\<close> value, given by its calendar fields in the one time zone the
  site runs in: year, month, day and the time of day (microseconds since midnight).
  Values are compared field by field, most significant first.
\<close>

record datetime =
  dt_year :: int
  dt_month :: int
  dt_day :: int
  dt_time :: int

definition dt_tuple :: "datetime \<Rightarrow> int \<times> int \<times> int \<times> int" where
  "dt_tuple d = (dt_year d, dt_month d, dt_day d, dt_time d)"

definition dt_le :: "datetime \<Rightarrow> datetime \<Rightarrow> bool" where
  "dt_le a b = (dt_tuple a \<le> dt_tuple b)"

definition dt_less :: "datetime \<Rightarrow> datetime \<Rightarrow> bool" where
  "dt_less a b = (dt_tuple a < dt_tuple b)"

text \<open>
  A row of the \<^verbatim>\<open>Post\<close> table. \<open>tags\<close> holds the tag ids of the rows that the
  \<^verbatim>\<open>TaggableManager\<close> keeps for this post in its join table, one entry per row.
\<close>

record Post =
  post_id :: nat
  title :: string
  slug :: string
  author :: nat
  body :: string
  publish :: datetime
  created :: datetime
  updated :: datetime
  status :: Status
  tags :: "nat list"

section \<open>The published manager\<close>

text \<open>
  \<^verbatim>\<open>PublishedManager.get_queryset\<close>:
  \<^verbatim>\<open>super().get_queryset().filter(status=Post.Status.PUBLISHED)\<close>, over the rows of
  the underlying queryset in the order that queryset has them.
\<close>

definition get_queryset :: "Post list \<Rightarrow> Post list" where
  "get_queryset rows = filter (\<lambda>p. status p = PUBLISHED) rows"

text \<open>
  A row of taggit's \<^verbatim>\<open>Tag\<close> table, which \<^verbatim>\<open>post_list\<close> looks up by slug.
\<close>

record Tag =
  tag_id :: nat
  tag_slug :: string
  tag_name :: string

text \<open>
  A row of the \<^verbatim>\<open>Comment\<close> table; \<open>comment_post\<close> is the foreign key to the post.
\<close>

record Comment =
  comment_id :: nat
  comment_post :: nat
  comment_name :: string
  comment_email :: string
  comment_body :: string
  comment_created :: datetime
  comment_updated :: datetime
  active :: bool

text \<open>
  The store the views read and write: the three tables, each in its row order, and the
  counter from which the next comment's primary key is drawn.
\<close>

record database =
  posts :: "Post list"
  tag_rows :: "Tag list"
  comments :: "Comment list"
  comment_seq :: nat

text \<open>
  What a view can raise or answer instead of a rendered page: the 404 of
  \<^verbatim>\<open>get_object_or_404\<close>, the \<^verbatim>\<open>MultipleObjectsReturned\<close> of the \<^verbatim>\<open>get\<close>
  under it, the paginator's two exceptions, the 405 of \<^verbatim>\<open>require_POST\<close>, the
  error of a query the database refuses, and the \<^verbatim>\<open>ValueError\<close> of a year no date
  can have.
\<close>

datatype error =
  Http404 | MultipleObjectsReturned | PageNotAnInteger | EmptyPage | MethodNotAllowed
  | DatabaseError | ValueError

text \<open>
  The part of an HTTP request the views read: the method and the two query
  dictionaries, as key/value pairs in the order they were sent.
\<close>

record request =
  req_method :: string
  GET :: "(string \<times> string) list"
  POST :: "(string \<times> string) list"

text \<open>
  \<^verbatim>\<open>QueryDict.get(key)\<close>: the last value sent for the key, \<open>None\<close> when the key is
  absent.
\<close>

definition qd_get :: "(string \<times> string) list \<Rightarrow> string \<Rightarrow> string option" where
  "qd_get qd k =
     (case filter (\<lambda>kv. fst kv = k) qd of
        [] \<Rightarrow> None
      | kv # kvs \<Rightarrow> Some (snd (last (kv # kvs))))"

section \<open>Query primitives\<close>

text \<open>
  \<^verbatim>\<open>get_object_or_404(Model, **conditions)\<close>: the single row that satisfies the
  conditions; no row is a 404, more than one row is \<^verbatim>\<open>MultipleObjectsReturned\<close>.
\<close>

definition get_object_or_404 :: "'a list \<Rightarrow> ('a \<Rightarrow> bool) \<Rightarrow> error + 'a" where
  "get_object_or_404 rows cond =
     (case filter cond rows of
        [] \<Rightarrow> Inl Http404
      | [x] \<Rightarrow> Inr x
      | x # y # zs \<Rightarrow> Inl MultipleObjectsReturned)"

text \<open>
  The sort key of \<^verbatim>\<open>'-publish'\<close>: ascending in this key is descending in the date.
  Sorting is stable, so rows with equal keys stay in table order (the database leaves
  their order open).
\<close>

definition desc_key :: "datetime \<Rightarrow> int \<times> int \<times> int \<times> int" where
  "desc_key d = (- dt_year d, - dt_month d, - dt_day d, - dt_time d)"

text \<open>\<^verbatim>\<open>Post.Meta.ordering = ['-publish']\<close>, applied when a queryset without an
  explicit \<^verbatim>\<open>order_by\<close> is evaluated.\<close>

definition meta_ordering :: "Post list \<Rightarrow> Post list" where
  "meta_ordering rows = sort_key (\<lambda>p. desc_key (publish p)) rows"

text \<open>\<^verbatim>\<open>Post.published.all()\<close>, evaluated.\<close>

definition published_all :: "database \<Rightarrow> Post list" where
  "published_all db = meta_ordering (get_queryset (posts db))"

text \<open>
  The inner join with the tag rows that a lookup through \<^verbatim>\<open>tags\<close> adds to a query:
  one joined row per post and tag row of that post.
\<close>

definition join_tags :: "Post list \<Rightarrow> (Post \<times> nat) list" where
  "join_tags rows = concat (map (\<lambda>p. map (Pair p) (tags p)) rows)"

text \<open>\<^verbatim>\<open>.filter(tags__in=ids)\<close> on the joined rows.\<close>

definition filter_tags_in :: "nat list \<Rightarrow> (Post \<times> nat) list \<Rightarrow> (Post \<times> nat) list" where
  "filter_tags_in ids jrows = filter (\<lambda>r. snd r \<in> set ids) jrows"

text \<open>\<^verbatim>\<open>.exclude(id=i)\<close> on the joined rows.\<close>

definition exclude_id :: "nat \<Rightarrow> (Post \<times> nat) list \<Rightarrow> (Post \<times> nat) list" where
  "exclude_id i jrows = filter (\<lambda>r. post_id (fst r) \<noteq> i) jrows"

text \<open>
  \<^verbatim>\<open>.annotate(same_tags=Count('tags'))\<close>: the joined rows are grouped by the post's
  primary key and each group yields its post with the number of rows in the group.
  Groups come in the order of their first row.
\<close>

fun annotate_count :: "(Post \<times> nat) list \<Rightarrow> (Post \<times> nat) list" where
  "annotate_count [] = []"
| "annotate_count (r # rs) =
     (fst r, Suc (length (filter (\<lambda>r'. post_id (fst r') = post_id (fst r)) rs)))
       # annotate_count (filter (\<lambda>r'. post_id (fst r') \<noteq> post_id (fst r)) rs)"

text \<open>
  What an \<^verbatim>\<open>ORDER BY\<close> may return: every arrangement of the rows that ascends in the
  sort key. The first row of an arrangement is any row whose key is least, and the
  rest is an arrangement of the other rows; which of several rows with equal keys
  comes first is left to the database.
\<close>

function orderings :: "('a \<Rightarrow> 'k::linorder) \<Rightarrow> 'a list \<Rightarrow> 'a list list" where
  "orderings key xs =
     (if xs = [] then [[]]
      else concat (map (\<lambda>x. map (Cons x) (orderings key (remove1 x xs)))
                       (filter (\<lambda>x. list_all (\<lambda>y. key x \<le> key y) xs) xs)))"
  by pat_completeness auto
termination
  by (relation "measure (\<lambda>(key, xs). length xs)") (auto simp: length_remove1 intro: Suc_pred)

declare orderings.simps [simp del]

text \<open>
  \<^verbatim>\<open>.order_by('-same_tags', '-publish')\<close> on the annotated rows: the arrangements
  that descend in the count and, among equal counts, descend in the publish date.
\<close>

definition order_by_same_tags_publish :: "(Post \<times> nat) list \<Rightarrow> (Post \<times> nat) list list" where
  "order_by_same_tags_publish arows =
     orderings (\<lambda>r. (- int (snd r), desc_key (publish (fst r)))) arows"

section \<open>Similar posts (blog/views.py, post\_detail, lines 104--116)\<close>

text \<open>
  The lists of similar posts the query may evaluate to: one for each arrangement the
  database may give the ordered rows, cut to its first four rows.
\<close>

definition similar_posts :: "database \<Rightarrow> Post \<Rightarrow> Post list list" where
  "similar_posts db post =
     (let post_tags_ids = tags post;
          similar = exclude_id (post_id post)
                      (filter_tags_in post_tags_ids (join_tags (get_queryset (posts db))))
      in map (\<lambda>ordered. map fst (take 4 ordered))
             (order_by_same_tags_publish (annotate_count similar)))"

text \<open>
  The ranking as the specification words it. The shared-tag count of a candidate is
  the size of the intersection of its tag set with the tag set of \<open>a\<close>. The candidates
  are the articles whose status is Published, other than \<open>a\<close>, whose tag set meets the
  tag set of \<open>a\<close>. A ranking of them has the greater count first and, among equal
  counts, the later publish date first. A result is the first \<open>limit\<close> articles of a
  ranking of all candidates.
\<close>

definition shared_tag_count :: "Post \<Rightarrow> Post \<Rightarrow> nat" where
  "shared_tag_count a c = card (set (tags c) \<inter> set (tags a))"

definition spec_candidates :: "Post list \<Rightarrow> Post \<Rightarrow> Post list" where
  "spec_candidates seq a =
     filter (\<lambda>c. status c = PUBLISHED \<and> post_id c \<noteq> post_id a
                 \<and> set (tags c) \<inter> set (tags a) \<noteq> {}) seq"

definition spec_ranked :: "Post \<Rightarrow> Post list \<Rightarrow> bool" where
  "spec_ranked a ranked \<longleftrightarrow>
     sorted_wrt (\<lambda>c c'. shared_tag_count a c' < shared_tag_count a c
                        \<or> (shared_tag_count a c' = shared_tag_count a c
                            \<and> dt_le (publish c') (publish c))) ranked"

definition similarTo_spec :: "Post list \<Rightarrow> Post \<Rightarrow> nat \<Rightarrow> Post list \<Rightarrow> bool" where
  "similarTo_spec seq a limit res \<longleftrightarrow>
     (\<exists>ranked. mset ranked = mset (spec_candidates seq a) \<and> spec_ranked a ranked
               \<and> res = take limit ranked)"

section \<open>Python strings and integers\<close>

text \<open>
  The characters \<^verbatim>\<open>str.isspace\<close> accepts, among the code points below 256 that a
  \<open>char\<close> can hold: they are what \<^verbatim>\<open>str.strip()\<close> removes.
\<close>

definition py_isspace :: "char \<Rightarrow> bool" where
  "py_isspace c \<longleftrightarrow>
     c \<in> set [CHR 0x09, CHR 0x0A, CHR 0x0B, CHR 0x0C, CHR 0x0D, CHR 0x1C, CHR 0x1D,
              CHR 0x1E, CHR 0x1F, CHR 0x20, CHR 0x85, CHR 0xA0]"

definition strip :: "string \<Rightarrow> string" where
  "strip s = rev (dropWhile py_isspace (rev (dropWhile py_isspace s)))"

text \<open>
  The characters \<^verbatim>\<open>int()\<close> skips before and after a number, below code point 256:
  the ASCII whitespace and the two Latin-1 spaces. The separators
  \<open>0x1C\<close> to \<open>0x1F\<close>, which \<^verbatim>\<open>str.isspace\<close> accepts, are not among them:
  \<^verbatim>\<open>int()\<close> refuses a string that carries one.
\<close>

definition int_isspace :: "char \<Rightarrow> bool" where
  "int_isspace c \<longleftrightarrow>
     c \<in> set [CHR 0x09, CHR 0x0A, CHR 0x0B, CHR 0x0C, CHR 0x0D, CHR 0x20, CHR 0x85,
              CHR 0xA0]"

definition int_strip :: "string \<Rightarrow> string" where
  "int_strip s = rev (dropWhile int_isspace (rev (dropWhile int_isspace s)))"

definition is_digit :: "char \<Rightarrow> bool" where
  "is_digit c \<longleftrightarrow> c \<in> set ''0123456789''"

definition digit_val :: "char \<Rightarrow> nat" where
  "digit_val c = of_char c - 48"

text \<open>
  The value of a run of decimal digits in which single underscores may stand between
  two digits, as \<^verbatim>\<open>int()\<close> reads it; \<open>None\<close> where \<^verbatim>\<open>int()\<close> raises
  \<^verbatim>\<open>ValueError\<close>.
\<close>

fun digits_value :: "nat \<Rightarrow> string \<Rightarrow> nat option" where
  "digits_value acc [] = Some acc"
| "digits_value acc (c # cs) =
     (if is_digit c then digits_value (10 * acc + digit_val c) cs
      else if c = CHR ''_'' then
        (case cs of
           [] \<Rightarrow> None
         | d # ds \<Rightarrow> if is_digit d then digits_value acc cs else None)
      else None)"

text \<open>
  \<^verbatim>\<open>int(s)\<close> for a string: the whitespace \<^verbatim>\<open>int()\<close> knows is dropped at both
  ends, one sign may lead, the
  rest must start with a digit and be a digit run. A run of more than 4300 digits is
  refused (the interpreter's default limit on integer strings). \<open>None\<close> stands for
  \<^verbatim>\<open>ValueError\<close>.
\<close>

definition py_int :: "string \<Rightarrow> int option" where
  "py_int s =
     (let t = int_strip s;
          neg = (case t of [] \<Rightarrow> False | c # r \<Rightarrow> c = CHR ''-'');
          u = (case t of [] \<Rightarrow> [] | c # r \<Rightarrow> if c = CHR ''-'' \<or> c = CHR ''+'' then r else t)
      in case u of
           [] \<Rightarrow> None
         | c # r \<Rightarrow>
             if \<not> is_digit c then None
             else if 4300 < length (filter is_digit u) then None
             else (case digits_value 0 u of
                     None \<Rightarrow> None
                   | Some n \<Rightarrow> Some (if neg then - int n else int n)))"

section \<open>Django's paginator\<close>

text \<open>
  The argument \<^verbatim>\<open>Paginator.page\<close> receives: the string taken from the query
  dictionary, or an integer (the default \<^verbatim>\<open>1\<close> of \<^verbatim>\<open>request.GET.get('page', 1)\<close>
  and the two integers of the exception handlers).
\<close>

datatype page_arg = IntArg int | StrArg string

record 'a Paginator =
  object_list :: "'a list"
  per_page :: int
  orphans :: int
  allow_empty_first_page :: bool

text \<open>\<^verbatim>\<open>Paginator(object_list, per_page)\<close> with the constructor's defaults.\<close>

definition Paginator_init :: "'a list \<Rightarrow> int \<Rightarrow> 'a Paginator" where
  "Paginator_init ol n =
     \<lparr>object_list = ol, per_page = n, orphans = 0, allow_empty_first_page = True\<rparr>"

record 'a Page =
  page_object_list :: "'a list"
  number :: int
  paginator :: "'a Paginator"

definition count :: "'a Paginator \<Rightarrow> int" where
  "count pg = int (length (object_list pg))"

text \<open>
  \<^verbatim>\<open>Paginator.num_pages\<close>: \<^verbatim>\<open>ceil(hits / per_page)\<close> with
  \<^verbatim>\<open>hits = max(1, count - orphans)\<close>. The ceiling is written with integer division,
  for a positive \<open>per_page\<close> (the views pass 3).
\<close>

definition num_pages :: "'a Paginator \<Rightarrow> int" where
  "num_pages pg =
     (if count pg = 0 \<and> \<not> allow_empty_first_page pg then 0
      else let hits = max 1 (count pg - orphans pg)
           in - ((- hits) div per_page pg))"

text \<open>
  \<^verbatim>\<open>int(number)\<close> on the argument of \<^verbatim>\<open>Paginator.page\<close>: an integer is itself, a
  string is read by \<^verbatim>\<open>int()\<close>; \<open>None\<close> stands for \<^verbatim>\<open>ValueError\<close>.
\<close>

definition page_arg_int :: "page_arg \<Rightarrow> int option" where
  "page_arg_int arg = (case arg of IntArg i \<Rightarrow> Some i | StrArg s \<Rightarrow> py_int s)"

text \<open>
  \<^verbatim>\<open>Paginator.validate_number\<close>: a value \<^verbatim>\<open>int()\<close> refuses raises
  \<^verbatim>\<open>PageNotAnInteger\<close>, a number below 1 or above \<^verbatim>\<open>num_pages\<close> raises
  \<^verbatim>\<open>EmptyPage\<close>.
\<close>

definition validate_number :: "'a Paginator \<Rightarrow> page_arg \<Rightarrow> error + int" where
  "validate_number pg arg =
     (case page_arg_int arg of
        None \<Rightarrow> Inl PageNotAnInteger
      | Some n \<Rightarrow>
          if n < 1 then Inl EmptyPage
          else if n > num_pages pg then Inl EmptyPage
          else Inr n)"

text \<open>
  \<^verbatim>\<open>Paginator.page\<close>: the slice \<^verbatim>\<open>object_list[bottom:top]\<close> of the validated page;
  both bounds are non-negative there.
\<close>

definition page :: "'a Paginator \<Rightarrow> page_arg \<Rightarrow> error + 'a Page" where
  "page pg arg =
     (case validate_number pg arg of
        Inl e \<Rightarrow> Inl e
      | Inr n \<Rightarrow>
          let bottom = (n - 1) * per_page pg;
              top = bottom + per_page pg;
              top' = (if top + orphans pg \<ge> count pg then count pg else top)
          in Inr \<lparr>page_object_list = drop (nat bottom) (take (nat top') (object_list pg)),
                  number = n, paginator = pg\<rparr>)"

definition has_next :: "'a Page \<Rightarrow> bool" where
  "has_next pg = (number pg < num_pages (paginator pg))"

definition has_previous :: "'a Page \<Rightarrow> bool" where
  "has_previous pg = (number pg > 1)"

text \<open>
  The number of pages as the specification gives it for the listing's page size 3:
  the ceiling of the count divided by 3, and 1 for an empty sequence.
\<close>

definition total_pages :: "'a list \<Rightarrow> int" where
  "total_pages seq = max 1 ((int (length seq) + 2) div 3)"

section \<open>Listing (blog/views.py, post\_list)\<close>

text \<open>
  Lines 56--68 of \<^verbatim>\<open>post_list\<close>: the paginator of page size 3 and the
  \<^verbatim>\<open>try\<close> with its two handlers. An exception raised inside a handler is not caught
  again.
\<close>

definition paginate_posts :: "'a list \<Rightarrow> page_arg \<Rightarrow> error + 'a Page" where
  "paginate_posts post_list page_number =
     (let paginator = Paginator_init post_list 3
      in case page paginator page_number of
           Inr page_obj \<Rightarrow> Inr page_obj
         | Inl PageNotAnInteger \<Rightarrow> page paginator (IntArg 1)
         | Inl EmptyPage \<Rightarrow> page paginator (IntArg (num_pages paginator))
         | Inl e \<Rightarrow> Inl e)"

text \<open>
  \<^verbatim>\<open>post_list(request, tag_slug=None)\<close>: the page of posts and the tag that was
  filtered by, if any. A \<open>tag_slug\<close> that is \<open>None\<close> or empty is falsy and filters
  nothing.
\<close>

definition post_list :: "database \<Rightarrow> request \<Rightarrow> string option \<Rightarrow> error + (Post Page \<times> Tag option)" where
  "post_list db req tag_slug_arg =
     (let page_number = (case qd_get (GET req) ''page'' of None \<Rightarrow> IntArg 1 | Some s \<Rightarrow> StrArg s)
      in if tag_slug_arg = None \<or> tag_slug_arg = Some []
         then (case paginate_posts (published_all db) page_number of
                 Inl e \<Rightarrow> Inl e
               | Inr page_obj \<Rightarrow> Inr (page_obj, None))
         else (case get_object_or_404 (tag_rows db) (\<lambda>t. Some (tag_slug t) = tag_slug_arg) of
                 Inl e \<Rightarrow> Inl e
               | Inr tag \<Rightarrow>
                   (case paginate_posts
                           (map fst (filter_tags_in [tag_id tag] (join_tags (published_all db))))
                           page_number of
                      Inl e \<Rightarrow> Inl e
                    | Inr page_obj \<Rightarrow> Inr (page_obj, Some tag))))"

section \<open>Detail (blog/views.py, post\_detail)\<close>

text \<open>\<^verbatim>\<open>post.comments.filter(active=True)\<close>, in the \<^verbatim>\<open>Comment.Meta\<close> ordering by
  creation time.\<close>

definition active_comments :: "database \<Rightarrow> Post \<Rightarrow> Comment list" where
  "active_comments db post =
     sort_key (\<lambda>c. dt_tuple (comment_created c))
       (filter (\<lambda>c. comment_post c = post_id post \<and> active c) (comments db))"

text \<open>
  \<^verbatim>\<open>post_detail(request, year, month, day, post)\<close>: the post, its active comments and
  the lists its similar posts may be, or the error of the lookup. The lookup goes
  through the default manager, so the status condition is written in the lookup
  itself. A year outside 1 to 9999 has no date to bound the \<^verbatim>\<open>publish__year\<close>
  lookup with, and building the query raises \<^verbatim>\<open>ValueError\<close> (or
  \<^verbatim>\<open>OverflowError\<close>, which the model does not tell apart) before any row is read.
\<close>

definition post_detail ::
  "database \<Rightarrow> int \<Rightarrow> int \<Rightarrow> int \<Rightarrow> string
     \<Rightarrow> error + (Post \<times> Comment list \<times> Post list list)" where
  "post_detail db year month day post_slug =
     (if year < 1 \<or> 9999 < year then Inl ValueError
      else case get_object_or_404 (posts db)
                  (\<lambda>p. status p = PUBLISHED \<and> slug p = post_slug
                        \<and> dt_year (publish p) = year
                        \<and> dt_month (publish p) = month
                        \<and> dt_day (publish p) = day) of
             Inl e \<Rightarrow> Inl e
           | Inr post \<Rightarrow> Inr (post, active_comments db post, similar_posts db post))"

section \<open>Comment submission (blog/views.py, post\_comment)\<close>

text \<open>
  The cleaned data of a valid \<^verbatim>\<open>CommentForm\<close>: name, email and body.
\<close>

record comment_fields =
  cf_name :: string
  cf_email :: string
  cf_body :: string

text \<open>
  \<^verbatim>\<open>post_comment(request, post_id)\<close> under \<^verbatim>\<open>@require_POST\<close>. Django's form
  validation is the parameter \<open>clean\<close>: it maps the submitted data to the cleaned
  fields, or to \<open>None\<close> when the form is not valid. \<open>now\<close> is the time of the save.
  The result is the answer (the post and the comment created, if any) and the store
  after the request.
\<close>

definition post_comment ::
  "((string \<times> string) list \<Rightarrow> comment_fields option) \<Rightarrow> datetime \<Rightarrow> database \<Rightarrow> request \<Rightarrow> nat
     \<Rightarrow> (error + (Post \<times> Comment option)) \<times> database" where
  "post_comment clean now db req pid =
     (if req_method req \<noteq> ''POST'' then (Inl MethodNotAllowed, db)
      else case get_object_or_404 (posts db) (\<lambda>p. post_id p = pid \<and> status p = PUBLISHED) of
             Inl e \<Rightarrow> (Inl e, db)
           | Inr post \<Rightarrow>
               (case clean (POST req) of
                  None \<Rightarrow> (Inr (post, None), db)
                | Some cd \<Rightarrow>
                    let comment = \<lparr>comment_id = comment_seq db,
                                   comment_post = post_id post,
                                   comment_name = cf_name cd,
                                   comment_email = cf_email cd,
                                   comment_body = cf_body cd,
                                   comment_created = now,
                                   comment_updated = now,
                                   active = True\<rparr>
                    in (Inr (post, Some comment),
                        db\<lparr>comments := comments db @ [comment],
                           comment_seq := Suc (comment_seq db)\<rparr>)))"

section \<open>Search (blog/forms.py, SearchForm; blog/views.py, post\_search)\<close>

text \<open>
  \<^verbatim>\<open>forms.CharField()\<close> with its defaults (required, stripping): the cleaned value,
  or \<open>None\<close> for a validation error. The value is stripped; an empty value fails the
  required check; a null character fails the field's default validator.
\<close>

definition CharField_clean :: "string option \<Rightarrow> string option" where
  "CharField_clean raw =
     (let v = (case raw of None \<Rightarrow> [] | Some s \<Rightarrow> strip s)
      in if v = [] then None
         else if CHR 0x00 \<in> set v then None
         else Some v)"

text \<open>
  The database's text-search match of \<^verbatim>\<open>SearchVector('title', 'body')\<close> against
  the query is the parameter \<open>fts\<close>, taking title, body and query; \<open>None\<close> stands for
  a query the database refuses, which the view does not catch.
\<close>

definition search_filter ::
  "(string \<Rightarrow> string \<Rightarrow> string \<Rightarrow> bool option) \<Rightarrow> string \<Rightarrow> Post list \<Rightarrow> error + Post list" where
  "search_filter fts query rows =
     (if list_ex (\<lambda>p. fts (title p) (body p) query = None) rows then Inl DatabaseError
      else Inr (filter (\<lambda>p. fts (title p) (body p) query = Some True) rows))"

text \<open>
  \<^verbatim>\<open>post_search(request)\<close>: the query and the results handed to the template, or the
  error that escapes the view.
\<close>

definition post_search ::
  "(string \<Rightarrow> string \<Rightarrow> string \<Rightarrow> bool option) \<Rightarrow> database \<Rightarrow> request
     \<Rightarrow> error + (string option \<times> Post list)" where
  "post_search fts db req =
     (case qd_get (GET req) ''query'' of
        None \<Rightarrow> Inr (None, [])
      | Some raw \<Rightarrow>
          (case CharField_clean (Some raw) of
             None \<Rightarrow> Inr (None, [])
           | Some query \<Rightarrow>
               (case search_filter fts query (published_all db) of
                  Inl e \<Rightarrow> Inl e
                | Inr results \<Rightarrow> Inr (Some query, results))))"

section \<open>Feed and sitemap (blog/feeds.py, blog/sitemaps.py)\<close>

definition feed_title :: string where
  "feed_title = ''My blog''"

definition feed_description :: string where
  "feed_description = ''New posts of my blog.''"

text \<open>\<^verbatim>\<open>LatestPostsFeed.items\<close>: \<^verbatim>\<open>Post.published.all()[:5]\<close>.\<close>

definition feed_items :: "database \<Rightarrow> Post list" where
  "feed_items db = take 5 (published_all db)"

definition item_title :: "Post \<Rightarrow> string" where
  "item_title item = title item"

text \<open>
  \<^verbatim>\<open>item_description\<close>: the markdown renderer and \<^verbatim>\<open>truncatewords_html\<close> are the
  two library functions \<open>markdown\<close> and \<open>truncatewords_html\<close>, taken as parameters.
\<close>

definition item_description ::
  "(string \<Rightarrow> string) \<Rightarrow> (string \<Rightarrow> nat \<Rightarrow> string) \<Rightarrow> Post \<Rightarrow> string" where
  "item_description markdown truncatewords_html item = truncatewords_html (markdown (body item)) 30"

definition item_pubdate :: "Post \<Rightarrow> datetime" where
  "item_pubdate item = publish item"

record feed_entry =
  entry_title :: string
  entry_description :: string
  entry_pubdate :: datetime

record feed_document =
  doc_title :: string
  doc_description :: string
  doc_entries :: "feed_entry list"

text \<open>
  The document the syndication framework builds from the class: its title and
  description attributes and one entry per item, in the order of \<^verbatim>\<open>items()\<close>.
\<close>

definition LatestPostsFeed ::
  "(string \<Rightarrow> string) \<Rightarrow> (string \<Rightarrow> nat \<Rightarrow> string) \<Rightarrow> database \<Rightarrow> feed_document" where
  "LatestPostsFeed markdown truncatewords_html db =
     \<lparr>doc_title = feed_title,
      doc_description = feed_description,
      doc_entries =
        map (\<lambda>item. \<lparr>entry_title = item_title item,
                      entry_description = item_description markdown truncatewords_html item,
                      entry_pubdate = item_pubdate item\<rparr>)
            (feed_items db)\<rparr>"

text \<open>\<^verbatim>\<open>PostSitemap.items\<close> and \<^verbatim>\<open>PostSitemap.lastmod\<close>.\<close>

definition sitemap_items :: "database \<Rightarrow> Post list" where
  "sitemap_items db = published_all db"

definition lastmod :: "Post \<Rightarrow> datetime" where
  "lastmod obj = updated obj"

section \<open>A small store for concrete runs\<close>

definition mk_date :: "int \<Rightarrow> int \<Rightarrow> int \<Rightarrow> datetime" where
  "mk_date y m d = \<lparr>dt_year = y, dt_month = m, dt_day = d, dt_time = 0\<rparr>"

definition mk_post :: "nat \<Rightarrow> string \<Rightarrow> datetime \<Rightarrow> Status \<Rightarrow> nat list \<Rightarrow> Post" where
  "mk_post i s d st ts =
     \<lparr>post_id = i, title = s, slug = s, author = 1, body = s,
      publish = d, created = d, updated = d, status = st, tags = ts\<rparr>"

text \<open>
  The three articles of the specification's scenario, with tag 1 for \<open>go\<close> and tag 2 for
  \<open>rust\<close>: P1 and P2 are Published, P3 is a Draft.
\<close>

definition P1 :: Post where
  "P1 = mk_post 1 ''p1'' (mk_date 2024 1 3) PUBLISHED [1, 2]"

definition P2 :: Post where
  "P2 = mk_post 2 ''p2'' (mk_date 2024 1 2) PUBLISHED [1]"

definition P3 :: Post where
  "P3 = mk_post 3 ''p3'' (mk_date 2024 1 1) DRAFT [2]"

definition scenario_db :: database where
  "scenario_db =
     \<lparr>posts = [P1, P2, P3],
      tag_rows = [\<lparr>tag_id = 1, tag_slug = ''go'', tag_name = ''go''\<rparr>,
                  \<lparr>tag_id = 2, tag_slug = ''rust'', tag_name = ''rust''\<rparr>],
      comments = [],
      comment_seq = 1\<rparr>"

text \<open>
  A store for ranking: the article \<open>Q0\<close> with tags 1, 2 and 3, and seven others in a
  table order that is not the ranking. \<open>QD\<close> shares three tags with it, \<open>QB\<close> two,
  \<open>QC\<close>, \<open>QF\<close> and \<open>QE\<close> one each (published on the 9th, 8th and 7th), \<open>QG\<close> none,
  and \<open>QH\<close> is a Draft.
\<close>

definition Q0 :: Post where
  "Q0 = mk_post 10 ''q0'' (mk_date 2024 1 1) PUBLISHED [1, 2, 3]"

definition QB :: Post where
  "QB = mk_post 11 ''qb'' (mk_date 2024 1 5) PUBLISHED [1, 2]"

definition QC :: Post where
  "QC = mk_post 12 ''qc'' (mk_date 2024 1 9) PUBLISHED [1]"

definition QD :: Post where
  "QD = mk_post 13 ''qd'' (mk_date 2024 1 2) PUBLISHED [1, 2, 3]"

definition QE :: Post where
  "QE = mk_post 14 ''qe'' (mk_date 2024 1 7) PUBLISHED [2, 7]"

definition QF :: Post where
  "QF = mk_post 15 ''qf'' (mk_date 2024 1 8) PUBLISHED [3]"

definition QG :: Post where
  "QG = mk_post 16 ''qg'' (mk_date 2024 1 6) PUBLISHED [9]"

definition QH :: Post where
  "QH = mk_post 17 ''qh'' (mk_date 2024 1 10) DRAFT [1, 2, 3]"

definition ranking_db :: database where
  "ranking_db =
     \<lparr>posts = [QE, Q0, QH, QF, QB, QG, QC, QD], tag_rows = [], comments = [],
      comment_seq = 1\<rparr>"

text \<open>
  A store with a tie: \<open>TX\<close> and \<open>TY\<close> share one tag with \<open>T0\<close> and were published at
  the same moment.
\<close>

definition T0 :: Post where
  "T0 = mk_post 20 ''t0'' (mk_date 2024 3 1) PUBLISHED [1]"

definition TX :: Post where
  "TX = mk_post 21 ''tx'' (mk_date 2024 3 2) PUBLISHED [1]"

definition TY :: Post where
  "TY = mk_post 22 ''ty'' (mk_date 2024 3 2) PUBLISHED [1]"

definition tie_db :: database where
  "tie_db = \<lparr>posts = [T0, TX, TY], tag_rows = [], comments = [], comment_seq = 1\<rparr>"

section \<open>Properties of the visibility filter\<close>

lemma get_queryset_subseq: "subseq (get_queryset rows) rows"
  by (simp add: get_queryset_def)

lemma get_queryset_count:
  "count_list (get_queryset rows) p = (if status p = PUBLISHED then count_list rows p else 0)"
  by (induction rows) (auto simp: get_queryset_def)

lemma get_queryset_set: "set (get_queryset rows) = {p \<in> set rows. status p = PUBLISHED}"
  by (auto simp: get_queryset_def)

text \<open>
  Claim C7. The visibility filter keeps exactly the rows whose status is Published: its
  output is a subsequence of the input (so the input order is preserved), every
  Published row occurs as often as in the input, and no other row occurs at all. A
  Published row is kept also when its publish date lies after any given present
  moment \<open>now\<close>: only the status is looked at.
\<close>

theorem visible_retains_exactly_published:
  "subseq (get_queryset rows) rows
   \<and> (\<forall>p. count_list (get_queryset rows) p
           = (if status p = PUBLISHED then count_list rows p else 0))
   \<and> (\<forall>p \<in> set rows. status p = PUBLISHED \<and> dt_less now (publish p)
           \<longrightarrow> p \<in> set (get_queryset rows))"
  by (simp add: get_queryset_subseq get_queryset_count get_queryset_set)

text \<open>
  Claim C9. Filtering an already filtered sequence changes nothing.
\<close>

theorem visible_idempotent: "get_queryset (get_queryset rows) = get_queryset rows"
  by (simp add: get_queryset_def)

theorem visible_retains_exactly_published_witness:
  "P1 \<in> set [P1, P3] \<and> status P1 = PUBLISHED \<and> dt_less (mk_date 2023 12 31) (publish P1)
   \<and> P1 \<in> set (get_queryset [P1, P3]) \<and> subseq (get_queryset [P1, P3]) [P1, P3]
   \<and> count_list (get_queryset [P1, P3]) P3 = 0"
  using visible_retains_exactly_published [of "[P1, P3]" "mk_date 2023 12 31"]
  by (simp add: P1_def P3_def mk_post_def mk_date_def dt_less_def dt_tuple_def)

section \<open>Similar posts against the specification's ranking\<close>

lemma annotate_count_group:
  assumes "ts \<noteq> []" and "\<forall>r \<in> set rest. post_id (fst r) \<noteq> post_id p"
  shows "annotate_count (map (Pair p) ts @ rest) = (p, length ts) # annotate_count rest"
proof -
  obtain t ts' where ts: "ts = t # ts'" using assms(1) by (cases ts) auto
  have r1: "filter (\<lambda>r'. post_id (fst r') = post_id p) rest = []"
    using assms(2) by (simp add: filter_empty_conv)
  have r2: "filter (\<lambda>r'. post_id (fst r') \<noteq> post_id p) rest = rest"
    using assms(2) by (simp add: filter_id_conv)
  show ?thesis by (simp add: ts r1 r2)
qed

lemma join_rows_ids:
  "r \<in> set (exclude_id i (filter_tags_in ids (join_tags ps))) \<Longrightarrow> fst r \<in> set ps"
  by (auto simp: exclude_id_def filter_tags_in_def join_tags_def)

lemma join_tags_Cons: "join_tags (p # ps) = map (Pair p) (tags p) @ join_tags ps"
  by (simp add: join_tags_def)

lemma similar_rows_Cons:
  "exclude_id i (filter_tags_in ids (join_tags (p # ps)))
   = map (Pair p) (if post_id p \<noteq> i then filter (\<lambda>t. t \<in> set ids) (tags p) else [])
     @ exclude_id i (filter_tags_in ids (join_tags ps))"
  by (simp add: join_tags_Cons exclude_id_def filter_tags_in_def filter_map comp_def)

lemma shared_count_length:
  "distinct ts \<Longrightarrow> length (filter (\<lambda>t. t \<in> set ids) ts) = card (set ts \<inter> set ids)"
proof -
  assume d: "distinct ts"
  have "set (filter (\<lambda>t. t \<in> set ids) ts) = set ts \<inter> set ids" by auto
  moreover have "distinct (filter (\<lambda>t. t \<in> set ids) ts)" using d by simp
  ultimately show ?thesis by (metis distinct_card)
qed

lemma annotate_similar:
  assumes "distinct (map post_id ps)" and "\<forall>c \<in> set ps. distinct (tags c)"
  shows "annotate_count (exclude_id i (filter_tags_in ids (join_tags ps)))
         = map (\<lambda>c. (c, card (set (tags c) \<inter> set ids)))
             (filter (\<lambda>c. post_id c \<noteq> i \<and> set (tags c) \<inter> set ids \<noteq> {}) ps)"
  using assms
proof (induction ps)
  case Nil
  show ?case by (simp add: join_tags_def exclude_id_def filter_tags_in_def)
next
  case (Cons p ps)
  let ?rest = "exclude_id i (filter_tags_in ids (join_tags ps))"
  let ?ts = "filter (\<lambda>t. t \<in> set ids) (tags p)"
  have IH: "annotate_count ?rest = map (\<lambda>c. (c, card (set (tags c) \<inter> set ids)))
             (filter (\<lambda>c. post_id c \<noteq> i \<and> set (tags c) \<inter> set ids \<noteq> {}) ps)"
    using Cons by simp
  have fresh: "\<forall>r \<in> set ?rest. post_id (fst r) \<noteq> post_id p"
  proof
    fix r assume "r \<in> set ?rest"
    then have "fst r \<in> set ps" by (rule join_rows_ids)
    moreover have "post_id p \<notin> post_id ` set ps" using Cons.prems(1) by simp
    ultimately show "post_id (fst r) \<noteq> post_id p" by (metis imageI)
  qed
  have ts_empty: "?ts = [] \<longleftrightarrow> set (tags p) \<inter> set ids = {}"
    by (auto simp: filter_empty_conv)
  have len: "length ?ts = card (set (tags p) \<inter> set ids)"
    using Cons.prems(2) by (simp add: shared_count_length)
  show ?case
  proof (cases "post_id p \<noteq> i \<and> set (tags p) \<inter> set ids \<noteq> {}")
    case True
    then have ne: "?ts \<noteq> []" using ts_empty by simp
    have "annotate_count (exclude_id i (filter_tags_in ids (join_tags (p # ps))))
          = (p, length ?ts) # annotate_count ?rest"
      using True annotate_count_group [OF ne fresh] by (simp add: similar_rows_Cons)
    then show ?thesis using True IH len by simp
  next
    case False
    then have "exclude_id i (filter_tags_in ids (join_tags (p # ps))) = ?rest"
      using ts_empty by (auto simp: similar_rows_Cons)
    then show ?thesis using False IH by auto
  qed
qed


lemma orderings_unfold:
  "orderings key xs =
     (if xs = [] then [[]]
      else concat (map (\<lambda>x. map (Cons x) (orderings key (remove1 x xs)))
                       (filter (\<lambda>x. list_all (\<lambda>y. key x \<le> key y) xs) xs)))"
  by (rule orderings.simps)

lemma orderings_iff:
  "ys \<in> set (orderings key xs) \<longleftrightarrow> mset ys = mset xs \<and> sorted (map key ys)"
proof (induction "length xs" arbitrary: xs ys)
  case 0
  then have "xs = []" by simp
  then show ?case by (subst orderings_unfold) auto
next
  case (Suc n)
  then have ne: "xs \<noteq> []" by auto
  have IH: "\<And>x zs. x \<in> set xs \<Longrightarrow>
              zs \<in> set (orderings key (remove1 x xs))
              \<longleftrightarrow> mset zs = mset (remove1 x xs) \<and> sorted (map key zs)"
  proof -
    fix x zs assume "x \<in> set xs"
    then have "n = length (remove1 x xs)" using Suc.hyps(2) by (simp add: length_remove1)
    then show "zs \<in> set (orderings key (remove1 x xs))
              \<longleftrightarrow> mset zs = mset (remove1 x xs) \<and> sorted (map key zs)"
      by (rule Suc.hyps(1))
  qed
  have unfold: "ys \<in> set (orderings key xs) \<longleftrightarrow>
        (\<exists>x \<in> set xs. (\<forall>y \<in> set xs. key x \<le> key y)
           \<and> (\<exists>zs \<in> set (orderings key (remove1 x xs)). ys = x # zs))"
    using ne by (subst orderings_unfold) (auto simp: list_all_iff)
  show ?case
  proof
    assume "ys \<in> set (orderings key xs)"
    then obtain x zs where x: "x \<in> set xs" "\<forall>y \<in> set xs. key x \<le> key y"
      and zs: "zs \<in> set (orderings key (remove1 x xs))" and ys: "ys = x # zs"
      using unfold by blast
    from IH [OF x(1)] zs have m: "mset zs = mset (remove1 x xs)" and s: "sorted (map key zs)"
      by auto
    have "mset ys = mset xs" using m x(1) ys by simp
    moreover have "set zs \<subseteq> set xs"
      using m by (metis mset_eq_setD set_remove1_subset)
    then have "sorted (map key ys)" using s x(2) ys by auto
    ultimately show "mset ys = mset xs \<and> sorted (map key ys)" by simp
  next
    assume a: "mset ys = mset xs \<and> sorted (map key ys)"
    then have "ys \<noteq> []" using ne by auto
    then obtain x zs where ys: "ys = x # zs" by (cases ys) auto
    have sets: "set ys = set xs" using a by (metis mset_eq_setD)
    then have x: "x \<in> set xs" using ys by auto
    have "\<forall>y \<in> set xs. key x \<le> key y" using a sets ys by auto
    moreover have "mset zs = mset (remove1 x xs)"
    proof -
      have "add_mset x (mset zs) = mset xs" using a ys by simp
      then have "mset zs = mset xs - {#x#}" by (metis add_mset_remove_trivial)
      then show ?thesis by simp
    qed
    moreover have "sorted (map key zs)" using a ys by simp
    ultimately show "ys \<in> set (orderings key xs)"
      using unfold x ys IH [OF x] by blast
  qed
qed

lemma orderings_nonempty: "orderings key xs \<noteq> []"
proof -
  have "sort_key key xs \<in> set (orderings key xs)" by (simp add: orderings_iff)
  then show ?thesis by auto
qed


lemma desc_key_le: "desc_key a \<le> desc_key b \<longleftrightarrow> dt_le b a"
  by (auto simp: desc_key_def dt_le_def dt_tuple_def)

lemma desc_key_inj: "desc_key a = desc_key b \<Longrightarrow> a = b"
  by (cases a, cases b) (simp add: desc_key_def)

lemma annotated_candidates:
  assumes "distinct (map post_id (posts db))" and "\<forall>c \<in> set (posts db). distinct (tags c)"
  shows "annotate_count
           (exclude_id (post_id a)
              (filter_tags_in (tags a) (join_tags (get_queryset (posts db)))))
         = map (\<lambda>c. (c, shared_tag_count a c)) (spec_candidates (posts db) a)"
proof -
  let ?vis = "get_queryset (posts db)"
  have d: "distinct (map post_id ?vis)"
    using assms(1) by (simp add: get_queryset_def distinct_map_filter)
  have t: "\<forall>c \<in> set ?vis. distinct (tags c)"
    using assms(2) by (simp add: get_queryset_def)
  have "filter (\<lambda>c. post_id c \<noteq> post_id a \<and> set (tags c) \<inter> set (tags a) \<noteq> {}) ?vis
        = spec_candidates (posts db) a"
    by (simp add: get_queryset_def spec_candidates_def)
  then show ?thesis
    by (simp add: annotate_similar [OF d t] shared_tag_count_def)
qed

lemma rank_key_le:
  "(- int n, desc_key (publish c)) \<le> (- int n', desc_key (publish c'))
   \<longleftrightarrow> n' < n \<or> (n' = n \<and> dt_le (publish c') (publish c))"
  by (auto simp: desc_key_le)

lemma ranked_iff_sorted:
  "sorted (map (\<lambda>r. (- int (snd r), desc_key (publish (fst r))))
             (map (\<lambda>c. (c, shared_tag_count a c)) ranked))
   \<longleftrightarrow> spec_ranked a ranked"
  by (simp only: sorted_map map_map comp_def fst_conv snd_conv rank_key_le spec_ranked_def)

lemma arrangement_of_image:
  assumes "mset ordered = mset (map (\<lambda>c. (c, f c)) cands)"
  shows "ordered = map (\<lambda>c. (c, f c)) (map fst ordered)
         \<and> mset (map fst ordered) = mset cands"
proof -
  have "set ordered = set (map (\<lambda>c. (c, f c)) cands)"
    using assms by (rule mset_eq_setD)
  then have "\<forall>r \<in> set ordered. (fst r, f (fst r)) = r" by auto
  then have a: "map (\<lambda>c. (c, f c)) (map fst ordered) = ordered"
    by (simp add: map_idI)
  have "mset (map fst ordered) = image_mset fst (mset (map (\<lambda>c. (c, f c)) cands))"
    using assms by (metis mset_map)
  also have "\<dots> = mset cands"
    by (simp add: image_mset.compositionality comp_def)
  finally show ?thesis using a by simp
qed

lemma similar_posts_iff:
  assumes "distinct (map post_id (posts db))" and "\<forall>c \<in> set (posts db). distinct (tags c)"
  shows "res \<in> set (similar_posts db a) \<longleftrightarrow> similarTo_spec (posts db) a 4 res"
proof -
  let ?g = "\<lambda>c. (c, shared_tag_count a c)"
  let ?key = "\<lambda>r :: Post \<times> nat. (- int (snd r), desc_key (publish (fst r)))"
  let ?cands = "spec_candidates (posts db) a"
  have code: "res \<in> set (similar_posts db a) \<longleftrightarrow>
              (\<exists>ordered. mset ordered = mset (map ?g ?cands) \<and> sorted (map ?key ordered)
                          \<and> res = map fst (take 4 ordered))"
    by (auto simp: similar_posts_def Let_def order_by_same_tags_publish_def
        annotated_candidates [OF assms] orderings_iff)
  show ?thesis
  proof
    assume "res \<in> set (similar_posts db a)"
    then obtain ordered where o: "mset ordered = mset (map ?g ?cands)"
      "sorted (map ?key ordered)" "res = map fst (take 4 ordered)"
      using code by blast
    let ?ranked = "map fst ordered"
    from arrangement_of_image [OF o(1)]
    have img: "ordered = map ?g ?ranked" and m: "mset ?ranked = mset ?cands" by auto
    have "sorted (map ?key (map ?g ?ranked))" using o(2) img by simp
    then have sr: "spec_ranked a ?ranked" by (simp only: ranked_iff_sorted)
    have tk: "res = take 4 ?ranked" using o(3) by (simp add: take_map)
    have "\<exists>ranked. mset ranked = mset ?cands \<and> spec_ranked a ranked \<and> res = take 4 ranked"
      using m sr tk by blast
    then show "similarTo_spec (posts db) a 4 res"
      by (simp only: similarTo_spec_def)
  next
    assume "similarTo_spec (posts db) a 4 res"
    then obtain ranked where r: "mset ranked = mset ?cands" "spec_ranked a ranked"
      "res = take 4 ranked"
      by (auto simp: similarTo_spec_def)
    let ?ordered = "map ?g ranked"
    have "mset ?ordered = mset (map ?g ?cands)" using r(1) by (metis mset_map)
    moreover have "sorted (map ?key ?ordered)" using r(2) by (simp only: ranked_iff_sorted)
    moreover have "res = map fst (take 4 ?ordered)"
      using r(3) by (simp add: take_map comp_def)
    ultimately show "res \<in> set (similar_posts db a)" using code by blast
  qed
qed

lemma similar_posts_nonempty: "similar_posts db a \<noteq> []"
  by (simp add: similar_posts_def Let_def order_by_same_tags_publish_def orderings_nonempty)

lemma similar_posts_no_tags: "tags a = [] \<Longrightarrow> similar_posts db a = [[]]"
  by (simp add: similar_posts_def filter_tags_in_def exclude_id_def
      order_by_same_tags_publish_def orderings_unfold [of _ "[]"])

lemma sorted_arrangement_unique:
  assumes "mset xs = mset ys" and "sorted (map key xs)" and "sorted (map key ys)"
    and "inj_on key (set xs)"
  shows "xs = ys"
proof -
  have "mset (map key xs) = mset (map key ys)" using assms(1) by (metis mset_map)
  then have "map key xs = map key ys"
    using assms(2,3) by (metis properties_for_sort)
  moreover have "set ys = set xs" using assms(1) by (metis mset_eq_setD)
  ultimately show ?thesis
    using assms(4) by (metis inj_on_map_eq_map sup.idem)
qed

lemma similar_posts_determined:
  assumes "distinct (map post_id (posts db))" and "\<forall>c \<in> set (posts db). distinct (tags c)"
    and ties: "\<forall>c \<in> set (spec_candidates (posts db) a).
                 \<forall>c' \<in> set (spec_candidates (posts db) a).
                   shared_tag_count a c = shared_tag_count a c' \<and> publish c = publish c'
                     \<longrightarrow> c = c'"
    and "res \<in> set (similar_posts db a)" and "res' \<in> set (similar_posts db a)"
  shows "res = res'"
proof -
  let ?g = "\<lambda>c. (c, shared_tag_count a c)"
  let ?key = "\<lambda>r :: Post \<times> nat. (- int (snd r), desc_key (publish (fst r)))"
  let ?cands = "spec_candidates (posts db) a"
  have code: "\<And>r. r \<in> set (similar_posts db a) \<Longrightarrow>
              (\<exists>ordered. mset ordered = mset (map ?g ?cands) \<and> sorted (map ?key ordered)
                          \<and> r = map fst (take 4 ordered))"
    by (auto simp: similar_posts_def Let_def order_by_same_tags_publish_def
        annotated_candidates [OF assms(1,2)] orderings_iff)
  obtain o1 where o1: "mset o1 = mset (map ?g ?cands)" "sorted (map ?key o1)"
    "res = map fst (take 4 o1)" using code [OF assms(4)] by blast
  obtain o2 where o2: "mset o2 = mset (map ?g ?cands)" "sorted (map ?key o2)"
    "res' = map fst (take 4 o2)" using code [OF assms(5)] by blast
  have s1: "set o1 = ?g ` set ?cands" using o1(1) by (metis mset_eq_setD set_map)
  have "inj_on ?key (set o1)"
  proof (rule inj_onI)
    fix r r' assume r: "r \<in> set o1" "r' \<in> set o1" and k: "?key r = ?key r'"
    obtain c c' where c: "c \<in> set ?cands" "r = ?g c" "c' \<in> set ?cands" "r' = ?g c'"
      using r s1 by auto
    have "shared_tag_count a c = shared_tag_count a c'" using k c by simp
    moreover have "publish c = publish c'" using k c by (simp add: desc_key_inj)
    ultimately have "c = c'" using ties c(1,3) by blast
    then show "r = r'" using c by simp
  qed
  then have "o1 = o2"
    using sorted_arrangement_unique [of o1 o2 ?key] o1 o2 by simp
  then show ?thesis using o1(3) o2(3) by simp
qed

text \<open>
  Claim C2. In a store where post ids are unique (the primary key) and no post carries
  the same tag twice (the tagging table's uniqueness constraint), the lists the
  similar-posts query of the detail view may return for an article are exactly the
  results of the specification's ranking with limit 4: the first four of an
  arrangement of all Published articles, other than the article, that share a tag
  with it, in which a greater size of the intersection of the tag sets comes first
  and, for equal sizes, a later publish date comes first. The query always has a
  result. When no two candidates agree in both the count and the publish date, the
  result is a single, determined sequence; candidates that agree in both may come in
  either order. An article without tags gets the empty list and nothing else.
\<close>

theorem similar_posts_is_spec_ranking:
  assumes "distinct (map post_id (posts db))" and "\<forall>c \<in> set (posts db). distinct (tags c)"
  shows "(\<forall>res. res \<in> set (similar_posts db a) \<longleftrightarrow> similarTo_spec (posts db) a 4 res)
         \<and> similar_posts db a \<noteq> []
         \<and> ((\<forall>c \<in> set (spec_candidates (posts db) a).
               \<forall>c' \<in> set (spec_candidates (posts db) a).
                 shared_tag_count a c = shared_tag_count a c' \<and> publish c = publish c'
                   \<longrightarrow> c = c')
              \<longrightarrow> (\<exists>res. set (similar_posts db a) = {res}))
         \<and> (tags a = [] \<longrightarrow> set (similar_posts db a) = {[]})"
proof -
  have iff: "\<forall>res. res \<in> set (similar_posts db a) \<longleftrightarrow> similarTo_spec (posts db) a 4 res"
    by (simp add: similar_posts_iff [OF assms])
  have ne: "similar_posts db a \<noteq> []" by (rule similar_posts_nonempty)
  have det: "(\<forall>c \<in> set (spec_candidates (posts db) a).
               \<forall>c' \<in> set (spec_candidates (posts db) a).
                 shared_tag_count a c = shared_tag_count a c' \<and> publish c = publish c'
                   \<longrightarrow> c = c')
              \<longrightarrow> (\<exists>res. set (similar_posts db a) = {res})"
  proof
    assume ties: "\<forall>c \<in> set (spec_candidates (posts db) a).
               \<forall>c' \<in> set (spec_candidates (posts db) a).
                 shared_tag_count a c = shared_tag_count a c' \<and> publish c = publish c'
                   \<longrightarrow> c = c'"
    obtain r where r: "r \<in> set (similar_posts db a)"
      using ne by (cases "similar_posts db a") auto
    have same: "\<forall>r' \<in> set (similar_posts db a). r' = r"
    proof
      fix r' assume "r' \<in> set (similar_posts db a)"
      then show "r' = r" using r by (rule similar_posts_determined [OF assms ties])
    qed
    have "set (similar_posts db a) = {r}"
    proof (rule equalityI)
      show "set (similar_posts db a) \<subseteq> {r}"
      proof
        fix x assume "x \<in> set (similar_posts db a)"
        with same have "x = r" by (rule bspec)
        then show "x \<in> {r}" by (simp only: singleton_iff)
      qed
      show "{r} \<subseteq> set (similar_posts db a)"
        using r by (simp only: insert_subset empty_subsetI simp_thms)
    qed
    then show "\<exists>res. set (similar_posts db a) = {res}" by (rule exI)
  qed
  have nt: "tags a = [] \<longrightarrow> set (similar_posts db a) = {[]}"
    by (simp add: similar_posts_no_tags)
  show ?thesis by (rule conjI [OF iff conjI [OF ne conjI [OF det nt]]])
qed

theorem similar_posts_is_spec_ranking_witness:
  "distinct (map post_id (posts ranking_db))
   \<and> list_all (\<lambda>c. distinct (tags c)) (posts ranking_db)
   \<and> similar_posts ranking_db Q0 = [[QD, QB, QC, QF]]
   \<and> similarTo_spec (posts ranking_db) Q0 4 [QD, QB, QC, QF]
   \<and> \<not> similarTo_spec (posts ranking_db) Q0 4 [QD, QB, QE, QF]
   \<and> similar_posts tie_db T0 = [[TX, TY], [TY, TX]]
   \<and> similarTo_spec (posts tie_db) T0 4 [TX, TY]
   \<and> similarTo_spec (posts tie_db) T0 4 [TY, TX]
   \<and> tags (mk_post 4 ''p4'' (mk_date 2024 1 4) PUBLISHED []) = []
   \<and> set (similar_posts ranking_db (mk_post 4 ''p4'' (mk_date 2024 1 4) PUBLISHED [])) = {[]}"
proof -
  have h1: "distinct (map post_id (posts ranking_db))"
    by (simp add: ranking_db_def Q0_def QB_def QC_def QD_def QE_def QF_def QG_def QH_def
        mk_post_def)
  have h2: "\<forall>c \<in> set (posts ranking_db). distinct (tags c)"
    by (simp add: ranking_db_def Q0_def QB_def QC_def QD_def QE_def QF_def QG_def QH_def
        mk_post_def)
  have h2': "list_all (\<lambda>c. distinct (tags c)) (posts ranking_db)"
    using h2 by (simp add: list_all_iff)
  have k1: "distinct (map post_id (posts tie_db))"
    by (simp add: tie_db_def T0_def TX_def TY_def mk_post_def)
  have k2: "\<forall>c \<in> set (posts tie_db). distinct (tags c)"
    by (simp add: tie_db_def T0_def TX_def TY_def mk_post_def)
  have e1: "similar_posts ranking_db Q0 = [[QD, QB, QC, QF]]" by code_simp
  have e2: "similar_posts tie_db T0 = [[TX, TY], [TY, TX]]" by code_simp
  have ce: "QC \<noteq> QE" by (simp add: QC_def QE_def mk_post_def)
  have t4: "tags (mk_post 4 ''p4'' (mk_date 2024 1 4) PUBLISHED []) = []"
    by (simp add: mk_post_def)
  note rank = similar_posts_is_spec_ranking [OF h1 h2, of Q0]
  note tie = similar_posts_is_spec_ranking [OF k1 k2, of T0]
  note none = similar_posts_is_spec_ranking
                [OF h1 h2, of "mk_post 4 ''p4'' (mk_date 2024 1 4) PUBLISHED []"]
  have a: "similarTo_spec (posts ranking_db) Q0 4 [QD, QB, QC, QF]"
    using rank [THEN conjunct1, rule_format, of "[QD, QB, QC, QF]"] by (simp add: e1)
  have b: "\<not> similarTo_spec (posts ranking_db) Q0 4 [QD, QB, QE, QF]"
    using rank [THEN conjunct1, rule_format, of "[QD, QB, QE, QF]"] ce by (simp add: e1)
  have c1: "similarTo_spec (posts tie_db) T0 4 [TX, TY]"
    using tie [THEN conjunct1, rule_format, of "[TX, TY]"] by (simp add: e2)
  have c2: "similarTo_spec (posts tie_db) T0 4 [TY, TX]"
    using tie [THEN conjunct1, rule_format, of "[TY, TX]"] by (simp add: e2)
  have d: "set (similar_posts ranking_db (mk_post 4 ''p4'' (mk_date 2024 1 4) PUBLISHED []))
           = {[]}"
    using none [THEN conjunct2, THEN conjunct2, THEN conjunct2] t4 by (rule mp)
  show ?thesis using h1 h2' e1 e2 t4 a b c1 c2 d by (intro conjI)
qed

section \<open>The paginator and the page coercions of the listing\<close>

lemma num_pages_init:
  "num_pages (Paginator_init xs 3) = - ((- max 1 (int (length xs))) div 3)"
  by (simp add: num_pages_def Paginator_init_def count_def)

lemma num_pages_init_ge1: "1 \<le> num_pages (Paginator_init xs 3)"
  unfolding num_pages_init by (cases "length xs = 0") (simp, linarith)

lemma num_pages_init_covers: "int (length xs) \<le> 3 * num_pages (Paginator_init xs 3)"
  unfolding num_pages_init by linarith

lemma num_pages_init_total: "num_pages (Paginator_init xs 3) = total_pages xs"
  unfolding num_pages_init total_pages_def by linarith

lemma last_page_size:
  "length (drop (nat (3 * (total_pages xs - 1))) xs) \<le> 3
   \<and> (xs \<noteq> [] \<longrightarrow> drop (nat (3 * (total_pages xs - 1))) xs \<noteq> [])"
proof (cases "xs = []")
  case True
  then show ?thesis by simp
next
  case False
  then have pos: "0 < int (length xs)" by simp
  define k where "k = (int (length xs) + 2) div 3"
  have k1: "3 * k \<le> int (length xs) + 2" unfolding k_def by presburger
  have k2: "int (length xs) + 2 < 3 * k + 3" unfolding k_def by presburger
  have "1 \<le> k" using pos k2 by linarith
  then have tp: "total_pages xs = k" by (simp add: total_pages_def k_def)
  have lo: "3 * (total_pages xs - 1) < int (length xs)"
    using k1 unfolding tp by presburger
  have hi: "int (length xs) \<le> 3 * (total_pages xs - 1) + 3"
    using k2 unfolding tp by presburger
  have nn: "0 \<le> 3 * (total_pages xs - 1)"
    using \<open>1 \<le> k\<close> unfolding tp by presburger
  have "nat (3 * (total_pages xs - 1)) < length xs" using lo nn by presburger
  moreover have "length xs \<le> nat (3 * (total_pages xs - 1)) + 3" using hi nn by presburger
  ultimately show ?thesis by auto
qed

lemma page_first:
  "page (Paginator_init xs 3) (IntArg 1)
   = Inr \<lparr>page_object_list = take 3 xs, number = 1, paginator = Paginator_init xs 3\<rparr>"
proof -
  have v: "validate_number (Paginator_init xs 3) (IntArg 1) = Inr 1"
    using num_pages_init_ge1 [of xs] by (simp add: validate_number_def page_arg_int_def)
  show ?thesis
    by (simp add: page_def v) (simp add: Paginator_init_def count_def)
qed

lemma page_last:
  "page (Paginator_init xs 3) (IntArg (num_pages (Paginator_init xs 3)))
   = Inr \<lparr>page_object_list = drop (nat (3 * (num_pages (Paginator_init xs 3) - 1))) xs,
           number = num_pages (Paginator_init xs 3), paginator = Paginator_init xs 3\<rparr>"
proof -
  let ?N = "num_pages (Paginator_init xs 3)"
  have v: "validate_number (Paginator_init xs 3) (IntArg ?N) = Inr ?N"
    using num_pages_init_ge1 [of xs] by (simp add: validate_number_def page_arg_int_def)
  have top: "(?N - 1) * 3 + 3 \<ge> int (length xs)"
    using num_pages_init_covers [of xs] by (simp add: algebra_simps)
  have fields: "per_page (Paginator_init xs 3) = 3" "orphans (Paginator_init xs 3) = 0"
    "count (Paginator_init xs 3) = int (length xs)" "object_list (Paginator_init xs 3) = xs"
    by (simp_all add: Paginator_init_def count_def)
  show ?thesis
    using top by (simp add: page_def v fields Let_def mult.commute)
qed

lemma paginate_not_integer:
  assumes "py_int s = None"
  shows "paginate_posts xs (StrArg s) = page (Paginator_init xs 3) (IntArg 1)"
proof -
  have "page (Paginator_init xs 3) (StrArg s) = Inl PageNotAnInteger"
    using assms by (simp add: page_def validate_number_def page_arg_int_def)
  then show ?thesis by (simp add: paginate_posts_def Let_def)
qed

lemma paginate_in_range:
  assumes "1 \<le> n" and "n \<le> num_pages (Paginator_init xs 3)"
  shows "paginate_posts xs (IntArg n) = page (Paginator_init xs 3) (IntArg n)"
proof -
  have "validate_number (Paginator_init xs 3) (IntArg n) = Inr n"
    using assms by (simp add: validate_number_def page_arg_int_def)
  then obtain pg where "page (Paginator_init xs 3) (IntArg n) = Inr pg"
    by (simp add: page_def Let_def)
  then show ?thesis by (simp add: paginate_posts_def Let_def)
qed

lemma paginate_out_of_range:
  assumes "page_arg_int arg = Some n" and "n < 1 \<or> n > num_pages (Paginator_init xs 3)"
  shows "paginate_posts xs arg
         = page (Paginator_init xs 3) (IntArg (num_pages (Paginator_init xs 3)))"
proof -
  have "validate_number (Paginator_init xs 3) arg = Inl EmptyPage"
    using assms by (auto simp: validate_number_def)
  then have "page (Paginator_init xs 3) arg = Inl EmptyPage"
    by (simp add: page_def)
  then show ?thesis by (simp add: paginate_posts_def Let_def)
qed

lemma page_str_int:
  "py_int s = Some n \<Longrightarrow> page pg (StrArg s) = page pg (IntArg n)"
  by (simp add: page_def validate_number_def page_arg_int_def)

lemma paginate_str_int:
  "py_int s = Some n \<Longrightarrow> paginate_posts xs (StrArg s) = paginate_posts xs (IntArg n)"
  by (simp add: paginate_posts_def page_str_int)

lemma py_int_one: "py_int ''1'' = Some 1"
  by code_simp

text \<open>
  Claim C3. For every sequence, a requested page that \<^verbatim>\<open>int()\<close> refuses (such as
  \<open>abc\<close>) yields, with page size 3, exactly the page that a request for page 1 yields,
  whether that request carries the string \<open>1\<close> or the default integer 1; the result
  is a page (the first three items, numbered 1), not an error.
\<close>

theorem page_not_an_integer_gives_first_page:
  assumes "py_int s = None"
  shows "paginate_posts seq (StrArg s) = paginate_posts seq (StrArg ''1'')
         \<and> paginate_posts seq (StrArg s) = paginate_posts seq (IntArg 1)
         \<and> paginate_posts seq (StrArg s)
             = Inr \<lparr>page_object_list = take 3 seq, number = 1,
                     paginator = Paginator_init seq 3\<rparr>"
proof -
  have one: "paginate_posts seq (IntArg 1) = page (Paginator_init seq 3) (IntArg 1)"
    using num_pages_init_ge1 [of seq] by (simp add: paginate_in_range)
  have str: "paginate_posts seq (StrArg ''1'') = paginate_posts seq (IntArg 1)"
    by (rule paginate_str_int [OF py_int_one])
  show ?thesis
    by (simp add: paginate_not_integer [OF assms] one str page_first)
qed

theorem page_not_an_integer_gives_first_page_witness:
  "py_int ''abc'' = None
   \<and> py_int [CHR 0x1F, CHR 0x30] = None
   \<and> paginate_posts [10, 20, 30, 40 :: nat] (StrArg [CHR 0x1F, CHR 0x30])
       = Inr \<lparr>page_object_list = [10, 20, 30], number = 1,
               paginator = Paginator_init [10, 20, 30, 40] 3\<rparr>
   \<and> paginate_posts [10, 20, 30, 40 :: nat] (StrArg ''abc'')
       = paginate_posts [10, 20, 30, 40] (StrArg ''1'')
   \<and> paginate_posts [10, 20, 30, 40 :: nat] (StrArg ''abc'')
       = Inr \<lparr>page_object_list = [10, 20, 30], number = 1,
               paginator = Paginator_init [10, 20, 30, 40] 3\<rparr>"
proof -
  have h: "py_int ''abc'' = None" by code_simp
  note inst = page_not_an_integer_gives_first_page [OF h, of "[10, 20, 30, 40 :: nat]"]
  have a: "paginate_posts [10, 20, 30, 40 :: nat] (StrArg ''abc'')
           = paginate_posts [10, 20, 30, 40] (StrArg ''1'')"
    using inst by blast
  have b: "paginate_posts [10, 20, 30, 40 :: nat] (StrArg ''abc'')
           = Inr \<lparr>page_object_list = [10, 20, 30], number = 1,
                   paginator = Paginator_init [10, 20, 30, 40] 3\<rparr>"
    using inst [THEN conjunct2, THEN conjunct2] by simp
  have h': "py_int [CHR 0x1F, CHR 0x30] = None" by code_simp
  have c: "paginate_posts [10, 20, 30, 40 :: nat] (StrArg [CHR 0x1F, CHR 0x30])
           = Inr \<lparr>page_object_list = [10, 20, 30], number = 1,
                   paginator = Paginator_init [10, 20, 30, 40] 3\<rparr>"
    using page_not_an_integer_gives_first_page
            [OF h', of "[10, 20, 30, 40 :: nat]", THEN conjunct2, THEN conjunct2]
    by simp
  show ?thesis
    using h h' a b c by (intro conjI)
qed

text \<open>
  Claim C4. For every sequence, a requested page that \<^verbatim>\<open>int()\<close> reads as an integer
  below 1 (zero or negative) or above the number of pages yields, with page size 3,
  the last page and no error: the page whose number is the number of pages (the
  ceiling of the count divided by 3, at least 1), holding the items that follow the
  \<open>3 * (number - 1)\<close> items of the pages before it up to the end of the sequence,
  which are at most three and, unless the sequence is empty, at least one. It is
  what asking for that page number yields, and \<open>has_next\<close> is false on it.
\<close>

theorem page_out_of_range_gives_last_page:
  assumes "page_arg_int arg = Some n" and "n < 1 \<or> total_pages seq < n"
  shows "paginate_posts seq arg
           = Inr \<lparr>page_object_list = drop (nat (3 * (total_pages seq - 1))) seq,
                   number = total_pages seq,
                   paginator = Paginator_init seq 3\<rparr>
         \<and> paginate_posts seq arg = paginate_posts seq (IntArg (total_pages seq))
         \<and> \<not> has_next \<lparr>page_object_list = drop (nat (3 * (total_pages seq - 1))) seq,
                     number = total_pages seq,
                     paginator = Paginator_init seq 3\<rparr>
         \<and> length (drop (nat (3 * (total_pages seq - 1))) seq) \<le> 3
         \<and> (seq \<noteq> [] \<longrightarrow> drop (nat (3 * (total_pages seq - 1))) seq \<noteq> [])"
proof -
  have range: "n < 1 \<or> n > num_pages (Paginator_init seq 3)"
    using assms(2) by (simp only: num_pages_init_total)
  have last: "paginate_posts seq (IntArg (num_pages (Paginator_init seq 3)))
              = page (Paginator_init seq 3) (IntArg (num_pages (Paginator_init seq 3)))"
    using num_pages_init_ge1 [of seq] by (simp add: paginate_in_range)
  have run: "paginate_posts seq arg
             = page (Paginator_init seq 3) (IntArg (num_pages (Paginator_init seq 3)))"
    by (rule paginate_out_of_range [OF assms(1) range])
  have a: "paginate_posts seq arg
           = Inr \<lparr>page_object_list = drop (nat (3 * (total_pages seq - 1))) seq,
                   number = total_pages seq,
                   paginator = Paginator_init seq 3\<rparr>"
    using run page_last [of seq] by (simp only: num_pages_init_total)
  have b: "paginate_posts seq arg = paginate_posts seq (IntArg (total_pages seq))"
    using run last by (simp only: num_pages_init_total)
  have c: "\<not> has_next \<lparr>page_object_list = drop (nat (3 * (total_pages seq - 1))) seq,
                     number = total_pages seq,
                     paginator = Paginator_init seq 3\<rparr>"
    by (simp add: has_next_def num_pages_init_total)
  show ?thesis
    using a b c last_page_size [of seq] by (intro conjI) simp_all
qed

theorem page_out_of_range_gives_last_page_witness:
  "page_arg_int (StrArg ''9999'') = Some 9999
   \<and> total_pages [10, 20, 30, 40 :: nat] = 2
   \<and> paginate_posts [10, 20, 30, 40 :: nat] (StrArg ''9999'')
       = Inr \<lparr>page_object_list = [40], number = 2,
               paginator = Paginator_init [10, 20, 30, 40] 3\<rparr>
   \<and> page_arg_int (StrArg ''0'') = Some 0
   \<and> paginate_posts [10, 20, 30, 40 :: nat] (StrArg ''0'')
       = Inr \<lparr>page_object_list = [40], number = 2,
               paginator = Paginator_init [10, 20, 30, 40] 3\<rparr>
   \<and> page_arg_int (StrArg ''-2'') = Some (- 2)
   \<and> paginate_posts [10, 20, 30 :: nat] (StrArg ''-2'')
       = Inr \<lparr>page_object_list = [10, 20, 30], number = 1,
               paginator = Paginator_init [10, 20, 30] 3\<rparr>
   \<and> \<not> has_next \<lparr>page_object_list = [40 :: nat], number = 2,
               paginator = Paginator_init [10, 20, 30, 40] 3\<rparr>"
proof -
  have n: "total_pages [10, 20, 30, 40 :: nat] = 2"
    by (simp add: total_pages_def)
  have n3: "total_pages [10, 20, 30 :: nat] = 1"
    by (simp add: total_pages_def)
  have h1: "page_arg_int (StrArg ''9999'') = Some 9999" by code_simp
  have h2: "page_arg_int (StrArg ''0'') = Some 0" by code_simp
  have h3: "page_arg_int (StrArg ''-2'') = Some (- 2)" by code_simp
  have r1: "(9999::int) < 1 \<or> total_pages [10, 20, 30, 40 :: nat] < 9999"
    by (simp add: n)
  have r2: "(0::int) < 1 \<or> total_pages [10, 20, 30, 40 :: nat] < 0"
    by simp
  have r3: "(- 2::int) < 1 \<or> total_pages [10, 20, 30 :: nat] < - 2"
    by simp
  have a: "paginate_posts [10, 20, 30, 40 :: nat] (StrArg ''9999'')
           = Inr \<lparr>page_object_list = [40], number = 2,
                   paginator = Paginator_init [10, 20, 30, 40] 3\<rparr>"
    using page_out_of_range_gives_last_page [OF h1 r1, THEN conjunct1]
    by (simp add: n)
  have b: "paginate_posts [10, 20, 30, 40 :: nat] (StrArg ''0'')
           = Inr \<lparr>page_object_list = [40], number = 2,
                   paginator = Paginator_init [10, 20, 30, 40] 3\<rparr>"
    using page_out_of_range_gives_last_page [OF h2 r2, THEN conjunct1]
    by (simp add: n)
  have c: "paginate_posts [10, 20, 30 :: nat] (StrArg ''-2'')
           = Inr \<lparr>page_object_list = [10, 20, 30], number = 1,
                   paginator = Paginator_init [10, 20, 30] 3\<rparr>"
    using page_out_of_range_gives_last_page [OF h3 r3, THEN conjunct1]
    by (simp add: n3)
  have d: "\<not> has_next \<lparr>page_object_list = [40 :: nat], number = 2,
                   paginator = Paginator_init [10, 20, 30, 40] 3\<rparr>"
    using page_out_of_range_gives_last_page
            [OF h1 r1, THEN conjunct2, THEN conjunct2, THEN conjunct1]
    by (simp add: n)
  show ?thesis
    using n h1 h2 h3 a b c d by (intro conjI)
qed

section \<open>Drafts stay out of every public output\<close>

lemma published_all_set: "set (published_all db) = set (get_queryset (posts db))"
  by (simp add: published_all_def meta_ordering_def)

lemma published_all_status: "p \<in> set (published_all db) \<Longrightarrow> status p = PUBLISHED"
  by (simp add: published_all_set get_queryset_set)

lemma annotate_count_fst: "fst ` set (annotate_count jrows) \<subseteq> fst ` set jrows"
proof (induction jrows rule: annotate_count.induct)
  case 1
  show ?case by simp
next
  case (2 r rs)
  have "fst ` set (filter (\<lambda>r'. post_id (fst r') \<noteq> post_id (fst r)) rs) \<subseteq> fst ` set rs"
    by auto
  with 2 show ?case by auto
qed

lemma join_tags_fst: "fst ` set (join_tags rows) \<subseteq> set rows"
  by (auto simp: join_tags_def)

lemma similar_posts_subset:
  assumes "res \<in> set (similar_posts db post)"
  shows "set res \<subseteq> set (get_queryset (posts db))"
proof -
  let ?rows = "exclude_id (post_id post)
                 (filter_tags_in (tags post) (join_tags (get_queryset (posts db))))"
  obtain ordered where o: "ordered \<in> set (order_by_same_tags_publish (annotate_count ?rows))"
    and r: "res = map fst (take 4 ordered)"
    using assms by (auto simp: similar_posts_def Let_def)
  have "mset ordered = mset (annotate_count ?rows)"
    using o by (simp add: order_by_same_tags_publish_def orderings_iff)
  then have so: "set ordered = set (annotate_count ?rows)" by (rule mset_eq_setD)
  have "set res \<subseteq> fst ` set ordered"
    using set_take_subset [of 4 ordered] r by auto
  also have "\<dots> \<subseteq> fst ` set ?rows" unfolding so by (rule annotate_count_fst)
  also have "\<dots> \<subseteq> fst ` set (join_tags (get_queryset (posts db)))"
    by (auto simp: exclude_id_def filter_tags_in_def)
  also have "\<dots> \<subseteq> set (get_queryset (posts db))" by (rule join_tags_fst)
  finally show ?thesis .
qed

lemma page_items_subset:
  "page pgn arg = Inr pg \<Longrightarrow> set (page_object_list pg) \<subseteq> set (object_list pgn)"
proof -
  assume a: "page pgn arg = Inr pg"
  then obtain i j where "page_object_list pg = drop i (take j (object_list pgn))"
    by (auto simp: page_def Let_def split: sum.splits)
  then show ?thesis
    using set_drop_subset [of i "take j (object_list pgn)"] set_take_subset [of j "object_list pgn"]
    by auto
qed

lemma paginate_items_subset:
  assumes "paginate_posts xs arg = Inr pg"
  shows "set (page_object_list pg) \<subseteq> set xs"
proof -
  have "\<exists>arg'. page (Paginator_init xs 3) arg' = Inr pg"
    using assms
    by (auto simp: paginate_posts_def Let_def split: sum.splits error.splits)
  then show ?thesis
    using page_items_subset by (fastforce simp: Paginator_init_def)
qed

lemma post_list_items_published:
  assumes "post_list db req tag_slug_arg = Inr (pg, t)" and "p \<in> set (page_object_list pg)"
  shows "status p = PUBLISHED"
proof -
  have "\<exists>xs arg. set xs \<subseteq> set (published_all db) \<and> paginate_posts xs arg = Inr pg"
  proof (cases "tag_slug_arg = None \<or> tag_slug_arg = Some []")
    case True
    then have "\<exists>arg. paginate_posts (published_all db) arg = Inr pg"
      using assms(1) by (auto simp: post_list_def Let_def split: sum.splits)
    then show ?thesis by blast
  next
    case False
    show ?thesis
    proof (cases "get_object_or_404 (tag_rows db) (\<lambda>t. Some (tag_slug t) = tag_slug_arg)")
      case (Inl e)
      then show ?thesis using False assms(1) by (auto simp: post_list_def Let_def)
    next
      case (Inr tag)
      let ?xs = "map fst (filter_tags_in [tag_id tag] (join_tags (published_all db)))"
      let ?arg = "case qd_get (GET req) ''page'' of None \<Rightarrow> IntArg 1 | Some s \<Rightarrow> StrArg s"
      have run: "paginate_posts ?xs ?arg = Inr pg"
        using False Inr assms(1) by (auto simp: post_list_def Let_def split: sum.splits)
      have sub: "set ?xs \<subseteq> set (published_all db)"
        using join_tags_fst [of "published_all db"] by (auto simp: filter_tags_in_def)
      show ?thesis using run sub by blast
    qed
  qed
  then obtain xs arg where "set xs \<subseteq> set (published_all db)" "paginate_posts xs arg = Inr pg"
    by blast
  then have "p \<in> set (published_all db)"
    using paginate_items_subset assms(2) by blast
  then show ?thesis by (rule published_all_status)
qed

lemma post_search_results_published:
  assumes "post_search fts db req = Inr (q, r)" and "p \<in> set r"
  shows "status p = PUBLISHED"
proof -
  have "set r \<subseteq> set (published_all db)"
    using assms(1)
    by (auto simp: post_search_def search_filter_def split: option.splits sum.splits if_splits)
  then show ?thesis using assms(2) published_all_status by blast
qed

text \<open>
  Claim C1. An article whose status is Draft is in no public output, whatever its tags
  and text, the request, the tag filter, the article whose similar posts are asked
  for, and the text-search match of the database: not among the results of a search
  that returns, not in any list the similar-posts query may return, not on a page of
  the listing (with or without a tag filter), not among the feed's items and not
  among the sitemap's items.
\<close>

theorem draft_in_no_public_output:
  assumes "status a = DRAFT"
  shows "(\<forall>q r. post_search fts db req = Inr (q, r) \<longrightarrow> a \<notin> set r)
         \<and> (\<forall>res \<in> set (similar_posts db post). a \<notin> set res)
         \<and> (\<forall>pg t. post_list db req tag_slug_arg = Inr (pg, t) \<longrightarrow> a \<notin> set (page_object_list pg))
         \<and> a \<notin> set (feed_items db)
         \<and> a \<notin> set (sitemap_items db)"
proof -
  have np: "status a \<noteq> PUBLISHED" using assms by simp
  have s1: "\<forall>q r. post_search fts db req = Inr (q, r) \<longrightarrow> a \<notin> set r"
    using np post_search_results_published by blast
  have s2: "\<forall>res \<in> set (similar_posts db post). a \<notin> set res"
  proof
    fix res assume "res \<in> set (similar_posts db post)"
    then have "set res \<subseteq> set (get_queryset (posts db))" by (rule similar_posts_subset)
    then show "a \<notin> set res" using np by (auto simp: get_queryset_set)
  qed
  have s3: "\<forall>pg t. post_list db req tag_slug_arg = Inr (pg, t) \<longrightarrow> a \<notin> set (page_object_list pg)"
    using np post_list_items_published by blast
  have s4: "a \<notin> set (feed_items db)"
    using np published_all_status [of a db] set_take_subset [of 5 "published_all db"]
    by (auto simp: feed_items_def)
  have s5: "a \<notin> set (sitemap_items db)"
    using np published_all_status [of a db] by (auto simp: sitemap_items_def)
  show ?thesis using s1 s2 s3 s4 s5 by blast
qed


theorem draft_in_no_public_output_witness:
  "status P3 = DRAFT
   \<and> post_search (\<lambda>t b q. Some (b = q)) scenario_db
         \<lparr>req_method = ''GET'', GET = [(''query'', ''p3'')], POST = []\<rparr>
       = Inr (Some ''p3'', [])
   \<and> similar_posts scenario_db P1 = [[P2]]
   \<and> list_all (\<lambda>res. P3 \<notin> set res) (similar_posts scenario_db P1)
   \<and> post_list scenario_db \<lparr>req_method = ''GET'', GET = [(''query'', ''p3'')], POST = []\<rparr>
         (Some ''rust'')
       = Inr (\<lparr>page_object_list = [P1], number = 1, paginator = Paginator_init [P1] 3\<rparr>,
              Some \<lparr>tag_id = 2, tag_slug = ''rust'', tag_name = ''rust''\<rparr>)
   \<and> P3 \<notin> set (feed_items scenario_db)
   \<and> P3 \<notin> set (sitemap_items scenario_db)"
proof -
  let ?req = "\<lparr>req_method = ''GET'', GET = [(''query'', ''p3'')], POST = []\<rparr>"
  have h: "status P3 = DRAFT" by (simp add: P3_def mk_post_def)
  note inst = draft_in_no_public_output
                [OF h, of "\<lambda>t b q. Some (b = q)" scenario_db ?req P1 "Some ''rust''"]
  have e1: "post_search (\<lambda>t b q. Some (b = q)) scenario_db ?req = Inr (Some ''p3'', [])"
    by code_simp
  have e2: "post_list scenario_db ?req (Some ''rust'')
       = Inr (\<lparr>page_object_list = [P1], number = 1, paginator = Paginator_init [P1] 3\<rparr>,
              Some \<lparr>tag_id = 2, tag_slug = ''rust'', tag_name = ''rust''\<rparr>)"
    by code_simp
  have e3: "similar_posts scenario_db P1 = [[P2]]" by code_simp
  have s: "list_all (\<lambda>res. P3 \<notin> set res) (similar_posts scenario_db P1)"
    using inst [THEN conjunct2, THEN conjunct1] by (simp only: list_all_iff)
  have f: "P3 \<notin> set (feed_items scenario_db)"
    using inst [THEN conjunct2, THEN conjunct2, THEN conjunct2, THEN conjunct1] .
  have g: "P3 \<notin> set (sitemap_items scenario_db)"
    using inst [THEN conjunct2, THEN conjunct2, THEN conjunct2, THEN conjunct2] .
  show ?thesis using h e1 e3 s e2 f g by (intro conjI)
qed

section \<open>Comment submission\<close>

lemma get_object_or_404_Inr:
  "get_object_or_404 rows cond = Inr x \<Longrightarrow> x \<in> set rows \<and> cond x"
proof -
  assume "get_object_or_404 rows cond = Inr x"
  then have "filter cond rows = [x]"
    by (auto simp: get_object_or_404_def split: list.splits)
  then have "x \<in> set (filter cond rows)" by simp
  then show ?thesis by simp
qed

lemma get_object_or_404_none:
  "\<forall>x \<in> set rows. \<not> cond x \<Longrightarrow> get_object_or_404 rows cond = Inl Http404"
  by (simp add: get_object_or_404_def filter_empty_conv)

lemma post_comment_not_found:
  assumes "req_method req = ''POST''"
    and "\<forall>p \<in> set (posts db). post_id p = pid \<longrightarrow> status p = DRAFT"
  shows "post_comment clean now db req pid = (Inl Http404, db)"
proof -
  have "\<forall>p \<in> set (posts db). \<not> (post_id p = pid \<and> status p = PUBLISHED)"
    using assms(2) by auto
  then have "get_object_or_404 (posts db) (\<lambda>p. post_id p = pid \<and> status p = PUBLISHED)
             = Inl Http404"
    by (rule get_object_or_404_none)
  then show ?thesis using assms(1) by (simp add: post_comment_def)
qed

lemma post_comment_invalid:
  "clean (POST req) = None \<Longrightarrow> snd (post_comment clean now db req pid) = db"
  by (simp add: post_comment_def split: sum.splits)

lemma post_comment_effect:
  "snd (post_comment clean now db req pid) = db
   \<or> (\<exists>post cd. post \<in> set (posts db) \<and> post_id post = pid \<and> status post = PUBLISHED
         \<and> req_method req = ''POST'' \<and> clean (POST req) = Some cd
         \<and> snd (post_comment clean now db req pid)
             = db\<lparr>comments := comments db @
                     [\<lparr>comment_id = comment_seq db, comment_post = pid,
                       comment_name = cf_name cd, comment_email = cf_email cd,
                       comment_body = cf_body cd, comment_created = now,
                       comment_updated = now, active = True\<rparr>],
                   comment_seq := Suc (comment_seq db)\<rparr>)"
proof (cases "req_method req = ''POST''")
  case False
  then show ?thesis by (simp add: post_comment_def)
next
  case True
  show ?thesis
  proof (cases "get_object_or_404 (posts db) (\<lambda>p. post_id p = pid \<and> status p = PUBLISHED)")
    case (Inl e)
    then show ?thesis using True by (simp add: post_comment_def)
  next
    case (Inr post)
    note found = get_object_or_404_Inr [OF Inr]
    show ?thesis
    proof (cases "clean (POST req)")
      case None
      then show ?thesis by (simp add: post_comment_invalid)
    next
      case (Some cd)
      have "snd (post_comment clean now db req pid)
             = db\<lparr>comments := comments db @
                     [\<lparr>comment_id = comment_seq db, comment_post = pid,
                       comment_name = cf_name cd, comment_email = cf_email cd,
                       comment_body = cf_body cd, comment_created = now,
                       comment_updated = now, active = True\<rparr>],
                   comment_seq := Suc (comment_seq db)\<rparr>"
        using True Inr Some found by (simp add: post_comment_def Let_def)
      then show ?thesis using True Some found by blast
    qed
  qed
qed

text \<open>
  Claim C5. A comment submission (a POST) for an id under which the store holds no
  Published article, because the id is unknown or its article is a Draft, is answered
  with the 404 and leaves the store as it was. A submission whose form is not valid
  leaves the store as it was. In every case the store after the request is either
  the store before it, or the store before it with exactly one comment appended,
  and then the request was a POST, the form was valid and the comment's owning
  article is a Published article of the store with the submitted id.
\<close>

theorem comment_only_on_published_post:
  "(req_method req = ''POST'' \<and> (\<forall>p \<in> set (posts db). post_id p = pid \<longrightarrow> status p = DRAFT)
      \<longrightarrow> post_comment clean now db req pid = (Inl Http404, db))
   \<and> (clean (POST req) = None \<longrightarrow> snd (post_comment clean now db req pid) = db)
   \<and> (snd (post_comment clean now db req pid) = db
       \<or> (\<exists>post cd. post \<in> set (posts db) \<and> post_id post = pid \<and> status post = PUBLISHED
             \<and> req_method req = ''POST'' \<and> clean (POST req) = Some cd
             \<and> snd (post_comment clean now db req pid)
                 = db\<lparr>comments := comments db @
                         [\<lparr>comment_id = comment_seq db, comment_post = pid,
                           comment_name = cf_name cd, comment_email = cf_email cd,
                           comment_body = cf_body cd, comment_created = now,
                           comment_updated = now, active = True\<rparr>],
                       comment_seq := Suc (comment_seq db)\<rparr>))"
  using post_comment_not_found [of req db pid clean now]
        post_comment_invalid [of clean req now db pid]
        post_comment_effect [of clean now db req pid]
  by blast

section \<open>Search with a blank query\<close>

lemma strip_blank: "\<forall>c \<in> set raw. py_isspace c \<Longrightarrow> strip raw = []"
proof -
  assume "\<forall>c \<in> set raw. py_isspace c"
  then have dw: "dropWhile py_isspace raw = []" by (induction raw) auto
  show ?thesis by (simp only: strip_def dw rev.simps dropWhile.simps)
qed

text \<open>
  Claim C6. A search whose query text is absent, empty or made of whitespace only
  returns the empty result list and no error, whatever the database's text search
  would do: the form is not valid, so the search is never run.
\<close>

theorem blank_query_gives_no_results:
  assumes "\<forall>raw. qd_get (GET req) ''query'' = Some raw \<longrightarrow> (\<forall>c \<in> set raw. py_isspace c)"
  shows "post_search fts db req = Inr (None, [])"
proof (cases "qd_get (GET req) ''query''")
  case None
  then show ?thesis by (simp add: post_search_def)
next
  case (Some raw)
  then have "strip raw = []" using assms strip_blank by blast
  then have "CharField_clean (Some raw) = None" by (simp add: CharField_clean_def)
  then show ?thesis using Some by (simp add: post_search_def)
qed

section \<open>Detail lookup\<close>

text \<open>
  Claim C10. At an address (year, month, day, slug) whose year a date can have (1 to
  9999), when every article the store holds there, in particular the single one, is
  a Draft, the detail query is answered with the 404, which is also its answer on
  the store from which the articles at that address have been removed.
\<close>

theorem draft_detail_is_not_found:
  assumes "\<forall>p \<in> set (posts db).
             slug p = s \<and> dt_year (publish p) = y \<and> dt_month (publish p) = m
               \<and> dt_day (publish p) = d \<longrightarrow> status p = DRAFT"
    and "1 \<le> y" and "y \<le> 9999"
  shows "post_detail db y m d s = Inl Http404
         \<and> post_detail db y m d s
             = post_detail
                 (db\<lparr>posts := filter (\<lambda>p. \<not> (slug p = s \<and> dt_year (publish p) = y
                                            \<and> dt_month (publish p) = m
                                            \<and> dt_day (publish p) = d)) (posts db)\<rparr>)
                 y m d s"
proof -
  let ?cond = "\<lambda>p. status p = PUBLISHED \<and> slug p = s \<and> dt_year (publish p) = y
                    \<and> dt_month (publish p) = m \<and> dt_day (publish p) = d"
  let ?gone = "filter (\<lambda>p. \<not> (slug p = s \<and> dt_year (publish p) = y
                                \<and> dt_month (publish p) = m
                                \<and> dt_day (publish p) = d)) (posts db)"
  have yr: "(y < 1 \<or> 9999 < y) = False" using assms(2,3) by simp
  have "\<forall>p \<in> set (posts db). \<not> ?cond p" using assms(1) by auto
  then have a: "get_object_or_404 (posts db) ?cond = Inl Http404"
    by (rule get_object_or_404_none)
  have "\<forall>p \<in> set ?gone. \<not> ?cond p" by auto
  then have b: "get_object_or_404 ?gone ?cond = Inl Http404"
    by (rule get_object_or_404_none)
  have c: "post_detail db y m d s = Inl Http404"
    by (simp only: post_detail_def yr if_False a sum.case)
  have sel: "posts (db\<lparr>posts := ?gone\<rparr>) = ?gone" by simp
  have e: "post_detail (db\<lparr>posts := ?gone\<rparr>) y m d s = Inl Http404"
    by (simp only: post_detail_def yr if_False sel b sum.case)
  show ?thesis using c e by simp
qed

theorem comment_only_on_published_post_witness:
  "post_comment (\<lambda>d. Some \<lparr>cf_name = ''ann'', cf_email = ''ann@example.org'', cf_body = ''hello''\<rparr>)
       (mk_date 2024 2 1) scenario_db \<lparr>req_method = ''POST'', GET = [], POST = []\<rparr> 3
     = (Inl Http404, scenario_db)
   \<and> post_comment (\<lambda>d. Some \<lparr>cf_name = ''ann'', cf_email = ''ann@example.org'', cf_body = ''hello''\<rparr>)
       (mk_date 2024 2 1) scenario_db \<lparr>req_method = ''POST'', GET = [], POST = []\<rparr> 9
     = (Inl Http404, scenario_db)
   \<and> snd (post_comment (\<lambda>d. None)
       (mk_date 2024 2 1) scenario_db \<lparr>req_method = ''POST'', GET = [], POST = []\<rparr> 2)
     = scenario_db
   \<and> comments (snd (post_comment
       (\<lambda>d. Some \<lparr>cf_name = ''ann'', cf_email = ''ann@example.org'', cf_body = ''hello''\<rparr>)
       (mk_date 2024 2 1) scenario_db \<lparr>req_method = ''POST'', GET = [], POST = []\<rparr> 2))
     = [\<lparr>comment_id = 1, comment_post = 2, comment_name = ''ann'',
         comment_email = ''ann@example.org'', comment_body = ''hello'',
         comment_created = mk_date 2024 2 1, comment_updated = mk_date 2024 2 1,
         active = True\<rparr>]"
proof -
  let ?ok = "\<lambda>d :: (string \<times> string) list.
               Some \<lparr>cf_name = ''ann'', cf_email = ''ann@example.org'', cf_body = ''hello''\<rparr>"
  let ?req = "\<lparr>req_method = ''POST'', GET = [], POST = []\<rparr>"
  have m: "req_method ?req = ''POST''" by simp
  have d3: "\<forall>p \<in> set (posts scenario_db). post_id p = 3 \<longrightarrow> status p = DRAFT"
    by (simp add: scenario_db_def P1_def P2_def P3_def mk_post_def)
  have d9: "\<forall>p \<in> set (posts scenario_db). post_id p = 9 \<longrightarrow> status p = DRAFT"
    by (simp add: scenario_db_def P1_def P2_def P3_def mk_post_def)
  have a: "post_comment ?ok (mk_date 2024 2 1) scenario_db ?req 3 = (Inl Http404, scenario_db)"
    using comment_only_on_published_post [of ?req scenario_db 3 ?ok "mk_date 2024 2 1"] m d3
    by blast
  have b: "post_comment ?ok (mk_date 2024 2 1) scenario_db ?req 9 = (Inl Http404, scenario_db)"
    using comment_only_on_published_post [of ?req scenario_db 9 ?ok "mk_date 2024 2 1"] m d9
    by blast
  have c: "snd (post_comment (\<lambda>d. None) (mk_date 2024 2 1) scenario_db ?req 2) = scenario_db"
    using comment_only_on_published_post
            [of ?req scenario_db 2 "\<lambda>d. None" "mk_date 2024 2 1"]
    by blast
  have e: "comments (snd (post_comment ?ok (mk_date 2024 2 1) scenario_db ?req 2))
     = [\<lparr>comment_id = 1, comment_post = 2, comment_name = ''ann'',
         comment_email = ''ann@example.org'', comment_body = ''hello'',
         comment_created = mk_date 2024 2 1, comment_updated = mk_date 2024 2 1,
         active = True\<rparr>]"
    by (simp add: post_comment_def get_object_or_404_def scenario_db_def
        P1_def P2_def P3_def mk_post_def Let_def)
  show ?thesis using a b c e by blast
qed

theorem blank_query_gives_no_results_witness:
  "qd_get (GET \<lparr>req_method = ''GET'', GET = [(''query'', [CHR 0x20, CHR 0x09])], POST = []\<rparr>)
       ''query'' = Some [CHR 0x20, CHR 0x09]
   \<and> py_isspace (CHR 0x20) \<and> py_isspace (CHR 0x09)
   \<and> post_search (\<lambda>t b q. None) scenario_db
        \<lparr>req_method = ''GET'', GET = [(''query'', [CHR 0x20, CHR 0x09])], POST = []\<rparr>
      = Inr (None, [])
   \<and> post_search (\<lambda>t b q. None) scenario_db
        \<lparr>req_method = ''GET'', GET = [(''query'', [])], POST = []\<rparr>
      = Inr (None, [])"
proof -
  let ?r1 = "\<lparr>req_method = ''GET'', GET = [(''query'', [CHR 0x20, CHR 0x09])], POST = []\<rparr>"
  let ?r2 = "\<lparr>req_method = ''GET'', GET = [(''query'', [])], POST = []\<rparr>"
  have q: "qd_get (GET ?r1) ''query'' = Some [CHR 0x20, CHR 0x09]"
    by (simp add: qd_get_def)
  have sp: "py_isspace (CHR 0x20) \<and> py_isspace (CHR 0x09)"
    by (simp add: py_isspace_def)
  have h1: "\<forall>raw. qd_get (GET ?r1) ''query'' = Some raw \<longrightarrow> (\<forall>c \<in> set raw. py_isspace c)"
    using sp by (auto simp: qd_get_def)
  have h2: "\<forall>raw. qd_get (GET ?r2) ''query'' = Some raw \<longrightarrow> (\<forall>c \<in> set raw. py_isspace c)"
    by (auto simp: qd_get_def)
  show ?thesis
    using q sp
      blank_query_gives_no_results [OF h1, of "\<lambda>t b q. None" scenario_db]
      blank_query_gives_no_results [OF h2, of "\<lambda>t b q. None" scenario_db]
    by blast
qed

theorem draft_detail_is_not_found_witness:
  "status P3 = DRAFT
   \<and> filter (\<lambda>p. slug p = ''p3'' \<and> dt_year (publish p) = 2024 \<and> dt_month (publish p) = 1
                  \<and> dt_day (publish p) = 1) (posts scenario_db) = [P3]
   \<and> post_detail scenario_db 2024 1 1 ''p3'' = Inl Http404"
proof -
  have h: "\<forall>p \<in> set (posts scenario_db).
             slug p = ''p3'' \<and> dt_year (publish p) = 2024 \<and> dt_month (publish p) = 1
               \<and> dt_day (publish p) = 1 \<longrightarrow> status p = DRAFT"
    by (simp add: scenario_db_def P1_def P2_def P3_def mk_post_def mk_date_def)
  have s: "status P3 = DRAFT" by (simp add: P3_def mk_post_def)
  have f: "filter (\<lambda>p. slug p = ''p3'' \<and> dt_year (publish p) = 2024 \<and> dt_month (publish p) = 1
                  \<and> dt_day (publish p) = 1) (posts scenario_db) = [P3]"
    by (simp add: scenario_db_def P1_def P2_def P3_def mk_post_def mk_date_def)
  have y1: "(1::int) \<le> 2024" by simp
  have y2: "(2024::int) \<le> 9999" by simp
  have r: "post_detail scenario_db 2024 1 1 ''p3'' = Inl Http404"
    using draft_detail_is_not_found [OF h y1 y2] by (rule conjunct1)
  show ?thesis
    using s f r by (intro conjI)
qed

section \<open>The feed\<close>

lemma meta_ordering_sorted:
  "sorted_wrt (\<lambda>x y. dt_le (publish y) (publish x)) (meta_ordering rows)"
proof -
  have "sorted (map (\<lambda>p. desc_key (publish p)) (meta_ordering rows))"
    by (simp add: meta_ordering_def)
  then show ?thesis by (simp add: sorted_map desc_key_le)
qed

lemma meta_ordering_mset: "mset (meta_ordering rows) = mset rows"
  by (simp add: meta_ordering_def)

text \<open>
  Claim C8. The feed document has the title \<open>My blog\<close>; its entries are, in order,
  the items' title, the body rendered by the markdown renderer and cut by
  \<^verbatim>\<open>truncatewords_html\<close> at 30 words, and the publish timestamp. The items are
  \<open>min 5 n\<close> many, for the \<open>n\<close> articles of the store whose status is Published, and
  they are the head of an arrangement of exactly those articles in descending order
  of publish date: the five most recently published ones, or all of them when there
  are fewer.
\<close>

theorem feed_is_five_latest:
  "doc_title (LatestPostsFeed markdown truncatewords_html db) = ''My blog''
   \<and> doc_entries (LatestPostsFeed markdown truncatewords_html db)
       = map (\<lambda>item. \<lparr>entry_title = title item,
                       entry_description = truncatewords_html (markdown (body item)) 30,
                       entry_pubdate = publish item\<rparr>)
             (feed_items db)
   \<and> length (feed_items db) = min 5 (length (filter (\<lambda>p. status p = PUBLISHED) (posts db)))
   \<and> (\<exists>rest. mset (feed_items db @ rest) = mset (filter (\<lambda>p. status p = PUBLISHED) (posts db))
              \<and> sorted_wrt (\<lambda>x y. dt_le (publish y) (publish x)) (feed_items db @ rest))"
proof -
  have t: "doc_title (LatestPostsFeed markdown truncatewords_html db) = ''My blog''"
    by (simp add: LatestPostsFeed_def feed_title_def)
  have e: "doc_entries (LatestPostsFeed markdown truncatewords_html db)
       = map (\<lambda>item. \<lparr>entry_title = title item,
                       entry_description = truncatewords_html (markdown (body item)) 30,
                       entry_pubdate = publish item\<rparr>)
             (feed_items db)"
    by (simp add: LatestPostsFeed_def item_title_def item_description_def item_pubdate_def)
  have l: "length (feed_items db) = min 5 (length (filter (\<lambda>p. status p = PUBLISHED) (posts db)))"
    by (simp add: feed_items_def published_all_def meta_ordering_def get_queryset_def
        min.commute)
  have whole: "feed_items db @ drop 5 (published_all db) = published_all db"
    by (simp add: feed_items_def)
  have m: "mset (feed_items db @ drop 5 (published_all db))
           = mset (filter (\<lambda>p. status p = PUBLISHED) (posts db))"
    unfolding whole by (simp add: published_all_def meta_ordering_mset get_queryset_def)
  have s: "sorted_wrt (\<lambda>x y. dt_le (publish y) (publish x))
             (feed_items db @ drop 5 (published_all db))"
    unfolding whole by (simp add: published_all_def meta_ordering_sorted)
  have ex: "\<exists>rest. mset (feed_items db @ rest) = mset (filter (\<lambda>p. status p = PUBLISHED) (posts db))
              \<and> sorted_wrt (\<lambda>x y. dt_le (publish y) (publish x)) (feed_items db @ rest)"
    using m s by (intro exI conjI)
  show ?thesis by (rule conjI [OF t conjI [OF e conjI [OF l ex]]])
qed

theorem feed_is_five_latest_witness:
  "feed_items ranking_db = [QC, QF, QE, QG, QB]
   \<and> length (filter (\<lambda>p. status p = PUBLISHED) (posts ranking_db)) = 7
   \<and> doc_title (LatestPostsFeed (\<lambda>b. b) (\<lambda>h n. take n h) ranking_db) = ''My blog''
   \<and> map entry_pubdate (doc_entries (LatestPostsFeed (\<lambda>b. b) (\<lambda>h n. take n h) ranking_db))
       = [mk_date 2024 1 9, mk_date 2024 1 8, mk_date 2024 1 7, mk_date 2024 1 6,
          mk_date 2024 1 5]"
proof -
  have i: "feed_items ranking_db = [QC, QF, QE, QG, QB]" by code_simp
  have n: "length (filter (\<lambda>p. status p = PUBLISHED) (posts ranking_db)) = 7" by code_simp
  note inst = feed_is_five_latest [of "\<lambda>b. b" "\<lambda>h n. take n h" ranking_db]
  have t: "doc_title (LatestPostsFeed (\<lambda>b. b) (\<lambda>h n. take n h) ranking_db) = ''My blog''"
    using inst by (rule conjunct1)
  have d: "map entry_pubdate (doc_entries (LatestPostsFeed (\<lambda>b. b) (\<lambda>h n. take n h) ranking_db))
       = [mk_date 2024 1 9, mk_date 2024 1 8, mk_date 2024 1 7, mk_date 2024 1 6,
          mk_date 2024 1 5]"
    using inst [THEN conjunct2, THEN conjunct1]
    by (simp add: i QB_def QC_def QE_def QF_def QG_def mk_post_def)
  show ?thesis using i n t d by (intro conjI)
qed

end
